theory Spec2Isabelle
  imports Complex_Main "HOL-Library.Word"
begin

section \<open>IEEE-754 binary arithmetic, as far as AnalogGyro.cpp uses it\<close>

text \<open>
  The C++ types \<^verbatim>\<open>float\<close> and \<^verbatim>\<open>double\<close> are the binary32 and binary64 formats with
  round-to-nearest, ties-to-even. A value is a finite real (\<open>Fin 0\<close> is +0), the
  negative zero, an infinity or a NaN. Every operation computes the exact real result
  and rounds it once.
\<close>

datatype fval = Fin real | MZero | PInf | NInf | NaN

record fmt =
  fprec :: nat \<comment> \<open>bits of the significand\<close>
  fbias :: nat \<comment> \<open>the smallest quantum is \<open>2 ^ - fbias\<close>\<close>
  fspan :: nat \<comment> \<open>the largest quantum is \<open>2 ^ (fspan - fbias)\<close>\<close>

definition binary32 :: fmt where
  "binary32 = \<lparr>fprec = 24, fbias = 149, fspan = 253\<rparr>"

definition binary64 :: fmt where
  "binary64 = \<lparr>fprec = 53, fbias = 1074, fspan = 2045\<rparr>"

text \<open>
  The quantum (unit in the last place) of a magnitude \<open>a\<close>: the smallest \<open>q\<close> among
  \<open>q0, 2 q0, 4 q0, ...\<close> with \<open>a < q * 2 ^ p\<close>, and the largest one of the format when
  there is none.
\<close>

primrec quantum :: "nat \<Rightarrow> nat \<Rightarrow> real \<Rightarrow> real \<Rightarrow> real" where
  "quantum p 0 q a = q"
| "quantum p (Suc n) q a = (if a < q * 2 ^ p then q else quantum p n (2 * q) a)"

definition rne :: "real \<Rightarrow> int" where
  "rne r = (let f = \<lfloor>r\<rfloor>; d = r - of_int f
            in if d < 1 / 2 then f
               else if 1 / 2 < d then f + 1
               else if even f then f else f + 1)"

text \<open>Rounding to the nearest multiple of the quantum, before the check for overflow.\<close>

definition rnd :: "fmt \<Rightarrow> real \<Rightarrow> real" where
  "rnd F x =
     (let q = quantum (fprec F) (fspan F) (1 / 2 ^ fbias F) \<bar>x\<bar>
      in of_int (rne (x / q)) * q)"

text \<open>The rounded value overflows to an infinity when its magnitude reaches
  \<open>2 ^ fprec\<close> times the largest quantum; a negative number that rounds to zero gives
  the negative zero.\<close>

definition fround :: "fmt \<Rightarrow> real \<Rightarrow> fval" where
  "fround F x =
     (let y = rnd F x
      in if 2 ^ fprec F * (2 ^ fspan F / 2 ^ fbias F) \<le> \<bar>y\<bar> then (if x < 0 then NInf else PInf)
         else if y = 0 \<and> x < 0 then MZero
         else Fin y)"

fun isneg :: "fval \<Rightarrow> bool" where
  "isneg (Fin x) = (x < 0)"
| "isneg MZero = True"
| "isneg NInf = True"
| "isneg PInf = False"
| "isneg NaN = False"

fun is_zero :: "fval \<Rightarrow> bool" where
  "is_zero (Fin x) = (x = 0)"
| "is_zero MZero = True"
| "is_zero v = False"

fun isinf :: "fval \<Rightarrow> bool" where
  "isinf PInf = True"
| "isinf NInf = True"
| "isinf v = False"

fun rval :: "fval \<Rightarrow> real" where
  "rval (Fin x) = x"
| "rval v = 0"

definition fzero :: "bool \<Rightarrow> fval" where
  "fzero s = (if s then MZero else Fin 0)"

definition finf :: "bool \<Rightarrow> fval" where
  "finf s = (if s then NInf else PInf)"

fun fneg :: "fval \<Rightarrow> fval" where
  "fneg (Fin x) = (if x = 0 then MZero else Fin (- x))"
| "fneg MZero = Fin 0"
| "fneg PInf = NInf"
| "fneg NInf = PInf"
| "fneg NaN = NaN"

definition fadd :: "fmt \<Rightarrow> fval \<Rightarrow> fval \<Rightarrow> fval" where
  "fadd F a b =
     (if a = NaN \<or> b = NaN then NaN
      else if isinf a then (if isinf b \<and> a \<noteq> b then NaN else a)
      else if isinf b then b
      else if a = MZero \<and> b = MZero then MZero
      else if rval a + rval b = 0 then Fin 0
      else fround F (rval a + rval b))"

definition fsub :: "fmt \<Rightarrow> fval \<Rightarrow> fval \<Rightarrow> fval" where
  "fsub F a b = fadd F a (fneg b)"

definition fmul :: "fmt \<Rightarrow> fval \<Rightarrow> fval \<Rightarrow> fval" where
  "fmul F a b =
     (if a = NaN \<or> b = NaN then NaN
      else let s = (isneg a \<noteq> isneg b)
           in if isinf a then (if is_zero b then NaN else finf s)
              else if isinf b then (if is_zero a then NaN else finf s)
              else if is_zero a \<or> is_zero b then fzero s
              else fround F (rval a * rval b))"

definition fdiv :: "fmt \<Rightarrow> fval \<Rightarrow> fval \<Rightarrow> fval" where
  "fdiv F a b =
     (if a = NaN \<or> b = NaN then NaN
      else let s = (isneg a \<noteq> isneg b)
           in if isinf a then (if isinf b then NaN else finf s)
              else if isinf b then fzero s
              else if is_zero b then (if is_zero a then NaN else finf s)
              else if is_zero a then fzero s
              else fround F (rval a / rval b))"

text \<open>Conversions. An integer converts to the nearest value of the format; a
  \<^verbatim>\<open>float\<close> is a \<^verbatim>\<open>double\<close> as it is; a \<^verbatim>\<open>double\<close> is rounded to \<^verbatim>\<open>float\<close>.\<close>

definition of_integer :: "fmt \<Rightarrow> int \<Rightarrow> fval" where
  "of_integer F i = fround F (of_int i)"

fun to_float :: "fval \<Rightarrow> fval" where
  "to_float (Fin x) = fround binary32 x"
| "to_float v = v"

text \<open>
  Undefined behaviour of the C++ program is a value of the model: a call returns
  \<open>Inl\<close> of the reason instead of a result.
\<close>

datatype fault = NullDereference | UndefinedConversion | ShiftOutOfRange | SignedOverflow

definition trunc_zero :: "real \<Rightarrow> int" where
  "trunc_zero x = (if 0 \<le> x then \<lfloor>x\<rfloor> else \<lceil>x\<rceil>)"

text \<open>A floating value converts to an integer type by truncation towards zero; the
  behaviour is undefined when the truncated value is not a value of the type.\<close>

fun to_integer :: "int \<Rightarrow> int \<Rightarrow> fval \<Rightarrow> fault + int" where
  "to_integer lo hi (Fin x) =
     (if lo \<le> trunc_zero x \<and> trunc_zero x \<le> hi then Inr (trunc_zero x) else Inl UndefinedConversion)"
| "to_integer lo hi MZero = Inr 0"
| "to_integer lo hi v = Inl UndefinedConversion"

definition to_uint32 :: "fval \<Rightarrow> fault + 32 word" where
  "to_uint32 v = (case to_integer 0 (2 ^ 32 - 1) v of Inl e \<Rightarrow> Inl e | Inr i \<Rightarrow> Inr (word_of_int i))"

definition to_int32 :: "fval \<Rightarrow> fault + 32 word" where
  "to_int32 v =
     (case to_integer (- (2 ^ 31)) (2 ^ 31 - 1) v of Inl e \<Rightarrow> Inl e | Inr i \<Rightarrow> Inr (word_of_int i))"

definition to_int64 :: "fval \<Rightarrow> fault + int" where
  "to_int64 v = to_integer (- (2 ^ 63)) (2 ^ 63 - 1) v"

text \<open>\<^verbatim>\<open>1 << n\<close> on \<^verbatim>\<open>int\<close>, for an unsigned 32-bit \<open>n\<close>.\<close>

definition shl1 :: "32 word \<Rightarrow> fault + int" where
  "shl1 n = (if unat n < 32 then Inr (sint (push_bit (unat n) (1 :: 32 word))) else Inl ShiftOutOfRange)"

text \<open>Subtraction of 64-bit signed integers.\<close>

definition sub_int64 :: "int \<Rightarrow> int \<Rightarrow> fault + int" where
  "sub_int64 a b =
     (if - (2 ^ 63) \<le> a - b \<and> a - b \<le> 2 ^ 63 - 1 then Inr (a - b) else Inl SignedOverflow)"

text \<open>The literals of the source.\<close>

definition lit_1e_9 :: fval where
  "lit_1e_9 = fround binary64 (1 / 10 ^ 9)"

definition lit_1e9 :: fval where
  "lit_1e9 = fround binary64 (10 ^ 9)"

definition lit_half :: fval where
  "lit_half = fround binary64 (1 / 2)"

definition lit_tenth :: fval where
  "lit_tenth = fround binary64 (1 / 10)"

section \<open>The Channel Adapter\<close>

text \<open>
  Modelled from the spec: class AnalogInput (AnalogInput.h, AnalogInput.cpp) is not
  among the sources. The record holds what the spec's Channel Adapter contract names:
  the configuration, the per-sample weight, the instantaneous averaged value and the
  accumulator \<open>(value, count)\<close> with its center and deadband registers; the getters
  return the fields with the types of the contract (\<^verbatim>\<open>double\<close> for the LSB weight, the
  average value and the sample rate, unsigned 32-bit for the bit counts), and
  initAccumulator and resetAccumulator clear the accumulator to zero.
\<close>

record AnalogInput =
  accumulatorChannel :: bool
  channelId :: "32 word"
  averageBits :: "32 word"
  oversampleBits :: "32 word"
  sampleRate :: fval
  lsbWeight :: fval
  averageValue :: fval
  accumulatorCenter :: "32 word"
  accumulatorDeadband :: "32 word"
  accumulatorValue :: "64 word"
  accumulatorCount :: "32 word"

definition InitAccumulator :: "AnalogInput \<Rightarrow> AnalogInput" where
  "InitAccumulator a = a\<lparr>accumulatorValue := 0, accumulatorCount := 0\<rparr>"

definition ResetAccumulator :: "AnalogInput \<Rightarrow> AnalogInput" where
  "ResetAccumulator a = a\<lparr>accumulatorValue := 0, accumulatorCount := 0\<rparr>"

text \<open>
  What the hardware has put into the channel when a wait of the given duration is
  over: the accumulator's value and count and the averaged value. It is a parameter
  of every operation that waits.
\<close>

type_synonym hardware = "fval \<Rightarrow> AnalogInput \<Rightarrow> 64 word \<times> 32 word \<times> fval"

definition sample :: "hardware \<Rightarrow> fval \<Rightarrow> AnalogInput \<Rightarrow> AnalogInput" where
  "sample hw d a =
     (case hw d a of (v, c, avg) \<Rightarrow>
        a\<lparr>averageValue := avg, accumulatorValue := v, accumulatorCount := c\<rparr>)"

section \<open>The gyro object\<close>

text \<open>
  Modelled from the spec: the error status of ErrorBase and the macros of WPIErrors.h
  are not among the sources. Setting a WPI error stores it in the object, and the
  status is fatal from then on.
\<close>

datatype wpi_error = NullParameter | ParameterOutOfRange

datatype PIDSourceType = kDisplacement | kRate

text \<open>The calls that leave the object: the waits, the usage report and the
  registration with the LiveWindow, in the order they happen.\<close>

datatype event = WaitEv fval | HALReportGyro "32 word" | LiveWindowAddSensor "32 word"

record AnalogGyro =
  m_analog :: "AnalogInput option"
  m_voltsPerDegreePerSecond :: fval
  m_offset :: fval
  m_center :: "32 word"
  m_pidSource :: PIDSourceType
  m_error :: "wpi_error option"
  events :: "event list"

text \<open>The constants of AnalogGyro.h, which is not among the sources, are parameters.\<close>

record gyro_consts =
  kOversampleBits :: "32 word"
  kAverageBits :: "32 word"
  kSamplesPerSecond :: fval
  kCalibrationSampleTime :: fval
  kDefaultVoltsPerDegreePerSecond :: fval

definition StatusIsFatal :: "AnalogGyro \<Rightarrow> bool" where
  "StatusIsFatal g = (m_error g \<noteq> None)"

definition Wait :: "hardware \<Rightarrow> fval \<Rightarrow> AnalogGyro \<Rightarrow> AnalogGyro" where
  "Wait hw d g = g\<lparr>m_analog := map_option (sample hw d) (m_analog g), events := events g @ [WaitEv d]\<rparr>"

definition SetDeadband :: "fval \<Rightarrow> AnalogGyro \<Rightarrow> fault + AnalogGyro" where
  "SetDeadband volts g =
     (if StatusIsFatal g then Inr g
      else case m_analog g of None \<Rightarrow> Inl NullDereference | Some a \<Rightarrow>
        (case shl1 (oversampleBits a) of Inl e \<Rightarrow> Inl e | Inr s \<Rightarrow>
          (case to_int32 (fmul binary64 (fdiv binary64 (fmul binary64 volts lit_1e9) (lsbWeight a))
                            (of_integer binary64 s)) of
             Inl e \<Rightarrow> Inl e
           | Inr deadband \<Rightarrow> Inr (g\<lparr>m_analog := Some (a\<lparr>accumulatorDeadband := deadband\<rparr>)\<rparr>))))"

definition Reset :: "AnalogGyro \<Rightarrow> fault + AnalogGyro" where
  "Reset g =
     (if StatusIsFatal g then Inr g
      else case m_analog g of None \<Rightarrow> Inl NullDereference | Some a \<Rightarrow>
        Inr (g\<lparr>m_analog := Some (ResetAccumulator a)\<rparr>))"

definition InitGyro :: "gyro_consts \<Rightarrow> hardware \<Rightarrow> AnalogGyro \<Rightarrow> fault + AnalogGyro" where
  "InitGyro K hw g =
     (if StatusIsFatal g then Inr g
      else case m_analog g of None \<Rightarrow> Inl NullDereference | Some a \<Rightarrow>
        if \<not> accumulatorChannel a
        then Inr (g\<lparr>m_analog := None, m_error := Some ParameterOutOfRange\<rparr>)
        else (case shl1 (kAverageBits K + kOversampleBits K) of Inl e \<Rightarrow> Inl e | Inr s \<Rightarrow>
          (let rate = fmul binary32 (kSamplesPerSecond K) (of_integer binary32 s);
               a1 = a\<lparr>averageBits := kAverageBits K, oversampleBits := kOversampleBits K,
                      sampleRate := rate\<rparr>;
               g1 = Wait hw lit_tenth
                      (g\<lparr>m_analog := Some a1,
                         m_voltsPerDegreePerSecond := kDefaultVoltsPerDegreePerSecond K\<rparr>)
           in case SetDeadband (Fin 0) g1 of Inl e \<Rightarrow> Inl e | Inr g2 \<Rightarrow>
                Inr (g2\<lparr>m_pidSource := kDisplacement,
                        events := events g2 @ [HALReportGyro (channelId a), LiveWindowAddSensor (channelId a)]\<rparr>))))"

text \<open>The quotient \<^verbatim>\<open>(float)value / (float)count\<close>, which Calibrate computes twice.\<close>

definition mean :: "64 word \<Rightarrow> 32 word \<Rightarrow> fval" where
  "mean v c = fdiv binary32 (of_integer binary32 (sint v)) (of_integer binary32 (uint c))"

definition Calibrate :: "gyro_consts \<Rightarrow> hardware \<Rightarrow> AnalogGyro \<Rightarrow> fault + AnalogGyro" where
  "Calibrate K hw g =
     (if StatusIsFatal g then Inr g
      else case m_analog g of None \<Rightarrow> Inl NullDereference | Some a0 \<Rightarrow>
        (let g1 = Wait hw (kCalibrationSampleTime K) (g\<lparr>m_analog := Some (InitAccumulator a0)\<rparr>)
         in case m_analog g1 of None \<Rightarrow> Inl NullDereference | Some a \<Rightarrow>
           (let m = mean (accumulatorValue a) (accumulatorCount a)
            in case to_uint32 (fadd binary64 m lit_half) of Inl e \<Rightarrow> Inl e | Inr c \<Rightarrow>
                 Inr (g1\<lparr>m_center := c,
                         m_offset := fsub binary32 m (of_integer binary32 (uint c)),
                         m_analog := Some (ResetAccumulator (a\<lparr>accumulatorCenter := c\<rparr>))\<rparr>))))"

definition GetAngle :: "AnalogGyro \<Rightarrow> fault + fval" where
  "GetAngle g =
     (if StatusIsFatal g then Inr (Fin 0)
      else case m_analog g of None \<Rightarrow> Inl NullDereference | Some a \<Rightarrow>
        (case to_int64 (fmul binary32 (of_integer binary32 (uint (accumulatorCount a))) (m_offset g)) of
           Inl e \<Rightarrow> Inl e
         | Inr t \<Rightarrow>
          (case sub_int64 (sint (accumulatorValue a)) t of Inl e \<Rightarrow> Inl e | Inr v \<Rightarrow>
            (case shl1 (averageBits a) of Inl e \<Rightarrow> Inl e | Inr s \<Rightarrow>
               Inr (to_float
                 (fdiv binary64
                    (fmul binary64
                       (fmul binary64 (fmul binary64 (of_integer binary64 v) lit_1e_9) (lsbWeight a))
                       (of_integer binary64 s))
                    (fmul binary64 (sampleRate a) (m_voltsPerDegreePerSecond g))))))))"

definition GetRate :: "AnalogGyro \<Rightarrow> fault + fval" where
  "GetRate g =
     (if StatusIsFatal g then Inr (Fin 0)
      else case m_analog g of None \<Rightarrow> Inl NullDereference | Some a \<Rightarrow>
        (case shl1 (oversampleBits a) of Inl e \<Rightarrow> Inl e | Inr s \<Rightarrow>
           Inr (fdiv binary64
                  (fmul binary64
                     (fmul binary64
                        (fsub binary64 (averageValue a)
                           (fadd binary64 (of_integer binary64 (uint (m_center g))) (m_offset g)))
                        lit_1e_9)
                     (lsbWeight a))
                  (fmul binary32 (of_integer binary32 s) (m_voltsPerDegreePerSecond g)))))"

definition GetOffset :: "AnalogGyro \<Rightarrow> fval" where
  "GetOffset g = m_offset g"

definition GetCenter :: "AnalogGyro \<Rightarrow> 32 word" where
  "GetCenter g = m_center g"

definition SetSensitivity :: "fval \<Rightarrow> AnalogGyro \<Rightarrow> AnalogGyro" where
  "SetSensitivity voltsPerDegreePerSecond g = g\<lparr>m_voltsPerDegreePerSecond := voltsPerDegreePerSecond\<rparr>"

text \<open>
  The constructors. The members that a constructor does not initialise keep what the
  storage held before: the first argument \<open>mem\<close> is that storage. The error status
  starts clear and nothing has been called yet.
\<close>

definition fresh :: "AnalogGyro \<Rightarrow> AnalogInput option \<Rightarrow> AnalogGyro" where
  "fresh mem channel = mem\<lparr>m_analog := channel, m_error := None, events := []\<rparr>"

text \<open>\<^verbatim>\<open>AnalogGyro(std::shared_ptr<AnalogInput> channel)\<close>; the constructor from a plain
  pointer delegates to it with the same pointer.\<close>

definition AnalogGyro_shared ::
  "gyro_consts \<Rightarrow> hardware \<Rightarrow> AnalogGyro \<Rightarrow> AnalogInput option \<Rightarrow> fault + AnalogGyro" where
  "AnalogGyro_shared K hw mem channel =
     (if channel = None then Inr ((fresh mem channel)\<lparr>m_error := Some NullParameter\<rparr>)
      else case InitGyro K hw (fresh mem channel) of Inl e \<Rightarrow> Inl e | Inr g \<Rightarrow> Calibrate K hw g)"

text \<open>\<^verbatim>\<open>AnalogGyro(int32_t channel)\<close>: \<open>new_input\<close> is the AnalogInput that
  \<^verbatim>\<open>std::make_shared<AnalogInput>(channel)\<close> creates.\<close>

definition AnalogGyro_channel ::
  "gyro_consts \<Rightarrow> hardware \<Rightarrow> AnalogGyro \<Rightarrow> (32 word \<Rightarrow> AnalogInput) \<Rightarrow> 32 word \<Rightarrow> fault + AnalogGyro" where
  "AnalogGyro_channel K hw mem new_input channel = AnalogGyro_shared K hw mem (Some (new_input channel))"

text \<open>The body shared by the two constructors with a preset center and offset, after
  \<^verbatim>\<open>InitGyro()\<close>.\<close>

definition preset :: "32 word \<Rightarrow> fval \<Rightarrow> AnalogGyro \<Rightarrow> fault + AnalogGyro" where
  "preset center offset g =
     (let g1 = g\<lparr>m_center := center, m_offset := offset\<rparr>
      in case m_analog g1 of None \<Rightarrow> Inl NullDereference | Some a \<Rightarrow>
           Inr (g1\<lparr>m_analog := Some (ResetAccumulator (a\<lparr>accumulatorCenter := m_center g1\<rparr>))\<rparr>))"

text \<open>\<^verbatim>\<open>AnalogGyro(int32_t channel, uint32_t center, float offset)\<close>\<close>

definition AnalogGyro_channel_preset ::
  "gyro_consts \<Rightarrow> hardware \<Rightarrow> AnalogGyro \<Rightarrow> (32 word \<Rightarrow> AnalogInput) \<Rightarrow> 32 word \<Rightarrow> 32 word \<Rightarrow> fval
     \<Rightarrow> fault + AnalogGyro" where
  "AnalogGyro_channel_preset K hw mem new_input channel center offset =
     (case InitGyro K hw (fresh mem (Some (new_input channel))) of
        Inl e \<Rightarrow> Inl e
      | Inr g \<Rightarrow> preset center offset g)"

text \<open>\<^verbatim>\<open>AnalogGyro(std::shared_ptr<AnalogInput> channel, uint32_t center, float offset)\<close>\<close>

definition AnalogGyro_shared_preset ::
  "gyro_consts \<Rightarrow> hardware \<Rightarrow> AnalogGyro \<Rightarrow> AnalogInput option \<Rightarrow> 32 word \<Rightarrow> fval \<Rightarrow> fault + AnalogGyro" where
  "AnalogGyro_shared_preset K hw mem channel center offset =
     (if channel = None then Inr ((fresh mem channel)\<lparr>m_error := Some NullParameter\<rparr>)
      else case InitGyro K hw (fresh mem channel) of
             Inl e \<Rightarrow> Inl e
           | Inr g \<Rightarrow> preset center offset g)"


section \<open>The values of a format\<close>

text \<open>The finite values of a format: an integer of fewer than \<open>fprec\<close> bits times a
  quantum of the format.\<close>

definition repr :: "fmt \<Rightarrow> real \<Rightarrow> bool" where
  "repr F y = (\<exists>k j. j \<le> fspan F \<and> \<bar>k\<bar> < 2 ^ fprec F \<and> y = of_int k * (2 ^ j / 2 ^ fbias F))"

text \<open>The magnitude that one rounding can reach: a real of magnitude at most \<open>b\<close>
  rounds to a value of magnitude at most \<open>rounded F b\<close>, the error of a normal value
  being at most \<open>2 ^ - fprec\<close> of it and the error of a subnormal one at most half of
  the smallest quantum.\<close>

definition rounded :: "fmt \<Rightarrow> real \<Rightarrow> real" where
  "rounded F b = b * (1 + 1 / 2 ^ fprec F) + 1 / (2 * 2 ^ fbias F)"

section \<open>GetAngle in the spec's words\<close>

text \<open>
  To compare with the code: as \<open>GetAngle\<close>, but the product of the count and the
  offset is rounded to the nearest integer, a tie upwards, where the code converts it
  to \<^verbatim>\<open>int64_t\<close>.
\<close>

definition round_half_up :: "real \<Rightarrow> int" where
  "round_half_up x = \<lfloor>x + 1 / 2\<rfloor>"

definition GetAngle_spec :: "AnalogGyro \<Rightarrow> fault + fval" where
  "GetAngle_spec g =
     (if StatusIsFatal g then Inr (Fin 0)
      else case m_analog g of None \<Rightarrow> Inl NullDereference | Some a \<Rightarrow>
        (case sub_int64 (sint (accumulatorValue a))
                (round_half_up (rval (fmul binary32 (of_integer binary32 (uint (accumulatorCount a)))
                                        (m_offset g)))) of
           Inl e \<Rightarrow> Inl e
         | Inr v \<Rightarrow>
            (case shl1 (averageBits a) of Inl e \<Rightarrow> Inl e | Inr s \<Rightarrow>
               Inr (to_float
                 (fdiv binary64
                    (fmul binary64
                       (fmul binary64 (fmul binary64 (of_integer binary64 v) lit_1e_9) (lsbWeight a))
                       (of_integer binary64 s))
                    (fmul binary64 (sampleRate a) (m_voltsPerDegreePerSecond g)))))))"

section \<open>The inputs of the examples\<close>

text \<open>The constants as AnalogGyro.h of this library version declares them, a channel
  on accumulator input 0 with an LSB weight of 1000 and 2 oversample bits, and a
  storage that held other values before the object was constructed in it.\<close>

definition example_consts :: gyro_consts where
  "example_consts = \<lparr>kOversampleBits = 10, kAverageBits = 0, kSamplesPerSecond = Fin 50,
     kCalibrationSampleTime = Fin 5, kDefaultVoltsPerDegreePerSecond = fround binary32 (7 / 1000)\<rparr>"

definition example_input :: AnalogInput where
  "example_input = \<lparr>accumulatorChannel = True, channelId = 0, averageBits = 0, oversampleBits = 2,
     sampleRate = Fin 50, lsbWeight = Fin 1000, averageValue = Fin 0, accumulatorCenter = 0,
     accumulatorDeadband = 0, accumulatorValue = 0, accumulatorCount = 0\<rparr>"

definition example_mem :: AnalogGyro where
  "example_mem = \<lparr>m_analog = None, m_voltsPerDegreePerSecond = Fin 1, m_offset = Fin (1 / 4),
     m_center = 7, m_pidSource = kRate, m_error = None, events = []\<rparr>"

text \<open>What the hardware has put into the channel when a wait ends: 2 samples that sum
  to 21, 10000 samples that sum to 104999, 240 samples of 1885303 each, or no sample.\<close>

definition example_hw :: hardware where
  "example_hw d a = (21, 2, Fin (21 / 2))"

definition example_hw_fraction :: hardware where
  "example_hw_fraction d a = (104999, 10000, Fin (21 / 2))"

definition example_hw_constant :: hardware where
  "example_hw_constant d a = (452472720, 240, Fin 1885303)"

definition example_hw_idle :: hardware where
  "example_hw_idle d a = (0, 0, Fin 0)"

text \<open>A valid object on the example channel, with a sensitivity of 1/128 volts per
  degree per second and an offset of 0.25; the same object on a channel with an LSB
  weight of 1024 and no oversampling; with an accumulator that has summed 1000000
  samples to 281500000; with one that has summed 3 samples to 1; after a calibration
  that has read back a sum of 21 over 2 samples, the averaged value of the channel
  being 10.5; and after a calibration on the 240 samples of 1885303, whose \<^verbatim>\<open>float\<close>
  mean is 1885302.875.\<close>

definition example_gyro :: AnalogGyro where
  "example_gyro = \<lparr>m_analog = Some example_input, m_voltsPerDegreePerSecond = Fin (1 / 128),
     m_offset = Fin (1 / 4), m_center = 100, m_pidSource = kDisplacement, m_error = None,
     events = []\<rparr>"

definition example_gyro_fine :: AnalogGyro where
  "example_gyro_fine = example_gyro\<lparr>m_analog :=
      Some (example_input\<lparr>oversampleBits := 0, lsbWeight := Fin 1024\<rparr>)\<rparr>"

definition example_gyro_turned :: AnalogGyro where
  "example_gyro_turned = example_gyro\<lparr>m_analog :=
      Some (example_input\<lparr>accumulatorValue := 281500000, accumulatorCount := 1000000\<rparr>)\<rparr>"

definition example_gyro_started :: AnalogGyro where
  "example_gyro_started = example_gyro\<lparr>m_analog :=
      Some (example_input\<lparr>accumulatorValue := 1, accumulatorCount := 3\<rparr>)\<rparr>"

definition example_gyro_calibrated :: AnalogGyro where
  "example_gyro_calibrated = example_gyro\<lparr>m_center := 11, m_offset := Fin (- (1 / 2)),
      m_analog := Some (example_input\<lparr>averageValue := Fin (21 / 2), accumulatorCenter := 11\<rparr>),
      events := [WaitEv (Fin 5)]\<rparr>"

definition example_gyro_constant :: AnalogGyro where
  "example_gyro_constant = example_gyro\<lparr>m_center := 1885303, m_offset := Fin (- (1 / 8)),
      m_analog := Some (example_input\<lparr>averageValue := Fin 1885303, accumulatorCenter := 1885303\<rparr>),
      events := [WaitEv (Fin 5)]\<rparr>"

section \<open>Rounding\<close>

lemma quantum_eqI:
  assumes "j \<le> n" "j = n \<or> a < q * 2 ^ j * 2 ^ p" "j = 0 \<or> q * 2 ^ (j - 1) * 2 ^ p \<le> a" "0 < q"
  shows "quantum p n q a = q * 2 ^ j"
  using assms
proof (induction n arbitrary: q j)
  case 0
  then show ?case by simp
next
  case (Suc n)
  show ?case
  proof (cases "a < q * 2 ^ p")
    case True
    have "j = 0"
    proof (rule ccontr)
      assume "j \<noteq> 0"
      with Suc.prems have "q * 2 ^ (j - 1) * 2 ^ p \<le> a" by simp
      moreover have "q * 2 ^ p \<le> q * 2 ^ (j - 1) * 2 ^ p"
        using \<open>0 < q\<close> by simp
      ultimately show False using True by simp
    qed
    with True show ?thesis by simp
  next
    case False
    have j0: "j \<noteq> 0"
    proof
      assume "j = 0"
      with Suc.prems(2) have "a < q * 2 ^ p" by simp
      with False show False by simp
    qed
    then obtain i where j: "j = Suc i" by (cases j) auto
    have "quantum p n (2 * q) a = (2 * q) * 2 ^ i"
    proof (rule Suc.IH)
      show "i \<le> n" using Suc.prems j by simp
      show "i = n \<or> a < 2 * q * 2 ^ i * 2 ^ p" using Suc.prems j by auto
      show "i = 0 \<or> 2 * q * 2 ^ (i - 1) * 2 ^ p \<le> a"
      proof (cases i)
        case 0 then show ?thesis by simp
      next
        case (Suc k)
        with Suc.prems(3) j show ?thesis by simp
      qed
      show "0 < 2 * q" using \<open>0 < q\<close> by simp
    qed
    with False j show ?thesis by simp
  qed
qed

lemma quantum_ex:
  assumes "0 < q"
  shows "\<exists>j\<le>n. quantum p n q a = q * 2 ^ j \<and> (j = n \<or> a < q * 2 ^ j * 2 ^ p)
            \<and> (j = 0 \<or> q * 2 ^ (j - 1) * 2 ^ p \<le> a)"
  using assms
proof (induction n arbitrary: q)
  case 0
  then show ?case by simp
next
  case (Suc n)
  show ?case
  proof (cases "a < q * 2 ^ p")
    case True
    then show ?thesis by (intro exI[of _ 0]) simp
  next
    case False
    from Suc.IH[of "2 * q"] Suc.prems obtain j where j: "j \<le> n"
      "quantum p n (2 * q) a = 2 * q * 2 ^ j" "j = n \<or> a < 2 * q * 2 ^ j * 2 ^ p"
      "j = 0 \<or> 2 * q * 2 ^ (j - 1) * 2 ^ p \<le> a" by auto
    show ?thesis
    proof (intro exI[of _ "Suc j"] conjI)
      show "Suc j \<le> Suc n" using j by simp
      show "quantum p (Suc n) q a = q * 2 ^ Suc j" using False j by simp
      show "Suc j = Suc n \<or> a < q * 2 ^ Suc j * 2 ^ p" using j by auto
      show "Suc j = 0 \<or> q * 2 ^ (Suc j - 1) * 2 ^ p \<le> a"
      proof (cases j)
        case 0 then show ?thesis using False by simp
      next
        case (Suc k) then show ?thesis using j(4) by simp
      qed
    qed
  qed
qed

lemma rne_of_int [simp]: "rne (of_int k) = k"
  by (simp add: rne_def)

lemma rne_ge_floor: "\<lfloor>x\<rfloor> \<le> rne x"
  by (simp add: rne_def Let_def)

lemma rne_lower: "of_int n \<le> x \<Longrightarrow> n \<le> rne x"
proof -
  assume "of_int n \<le> x"
  then have "n \<le> \<lfloor>x\<rfloor>" by (simp add: le_floor_iff)
  with rne_ge_floor[of x] show ?thesis by linarith
qed

lemma rne_upper: "x \<le> of_int n \<Longrightarrow> rne x \<le> n"
proof -
  assume a: "x \<le> of_int n"
  have f: "\<lfloor>x\<rfloor> \<le> n" using floor_mono[OF a] by simp
  show ?thesis
  proof (cases "\<lfloor>x\<rfloor> = n")
    case True
    then have "x = of_int n" using a by linarith
    then show ?thesis by simp
  next
    case False
    with f have "\<lfloor>x\<rfloor> + 1 \<le> n" by simp
    then show ?thesis by (auto simp: rne_def Let_def)
  qed
qed




lemma quantum_fmt:
  "\<exists>j\<le>fspan F. quantum (fprec F) (fspan F) (1 / 2 ^ fbias F) a = 2 ^ j / 2 ^ fbias F
      \<and> (j = fspan F \<or> a < 2 ^ j / 2 ^ fbias F * 2 ^ fprec F)
      \<and> (j = 0 \<or> 2 ^ (j - 1) / 2 ^ fbias F * 2 ^ fprec F \<le> a)"
  using quantum_ex[of "1 / 2 ^ fbias F" "fspan F" "fprec F" a] by simp

lemma pow2_split: "i \<le> j \<Longrightarrow> (2::real) ^ j = 2 ^ (j - i) * 2 ^ i"
  by (simp flip: power_add)

lemma int_less_pow2: "\<bar>k\<bar> < 2 ^ n \<Longrightarrow> real_of_int \<bar>k\<bar> < 2 ^ n"
  by (metis of_int_less_iff of_int_numeral of_int_power)

lemma rnd_unfold:
  obtains j where "j \<le> fspan F"
    and "rnd F x = of_int (rne (x / (2 ^ j / 2 ^ fbias F))) * (2 ^ j / 2 ^ fbias F)"
    and "j = fspan F \<or> \<bar>x\<bar> < 2 ^ j / 2 ^ fbias F * 2 ^ fprec F"
    and "j = 0 \<or> 2 ^ (j - 1) / 2 ^ fbias F * 2 ^ fprec F \<le> \<bar>x\<bar>"
proof -
  obtain j where "j \<le> fspan F"
    and q: "quantum (fprec F) (fspan F) (1 / 2 ^ fbias F) \<bar>x\<bar> = 2 ^ j / 2 ^ fbias F"
    and "j = fspan F \<or> \<bar>x\<bar> < 2 ^ j / 2 ^ fbias F * 2 ^ fprec F"
    and "j = 0 \<or> 2 ^ (j - 1) / 2 ^ fbias F * 2 ^ fprec F \<le> \<bar>x\<bar>"
    using quantum_fmt[of F "\<bar>x\<bar>"] by blast
  moreover have "rnd F x = of_int (rne (x / (2 ^ j / 2 ^ fbias F))) * (2 ^ j / 2 ^ fbias F)"
    by (simp add: rnd_def q)
  ultimately show thesis using that by blast
qed

lemma repr_bound:
  assumes "repr F c"
  shows "\<bar>c\<bar> < 2 ^ fprec F * (2 ^ fspan F / 2 ^ fbias F)"
proof -
  from assms obtain k j where j: "j \<le> fspan F" and k: "\<bar>k\<bar> < 2 ^ fprec F"
    and c: "c = of_int k * (2 ^ j / 2 ^ fbias F)" unfolding repr_def by blast
  have "\<bar>c\<bar> = real_of_int \<bar>k\<bar> * (2 ^ j / 2 ^ fbias F)" unfolding c by (simp add: abs_mult)
  also have "\<dots> < 2 ^ fprec F * (2 ^ j / 2 ^ fbias F)"
    using int_less_pow2[OF k] by (intro mult_strict_right_mono) simp_all
  also have "\<dots> \<le> 2 ^ fprec F * (2 ^ fspan F / 2 ^ fbias F)"
    using j by (intro mult_left_mono divide_right_mono power_increasing) simp_all
  finally show ?thesis .
qed

lemma rnd_exact:
  assumes "repr F x"
  shows "rnd F x = x"
proof -
  from assms obtain k j where j: "j \<le> fspan F" and k: "\<bar>k\<bar> < 2 ^ fprec F"
    and x: "x = of_int k * (2 ^ j / 2 ^ fbias F)" unfolding repr_def by blast
  define B :: real where "B = 2 ^ fbias F"
  define P :: real where "P = 2 ^ fprec F"
  have B: "0 < B" and P: "0 < P" by (simp_all add: B_def P_def)
  obtain i where i: "i \<le> fspan F"
    and r: "rnd F x = of_int (rne (x / (2 ^ i / B))) * (2 ^ i / B)"
    and lo: "i = 0 \<or> 2 ^ (i - 1) / B * P \<le> \<bar>x\<bar>"
    using rnd_unfold[of F x] unfolding B_def P_def by blast
  have kP: "real_of_int \<bar>k\<bar> < P" using int_less_pow2[OF k] unfolding P_def .
  have ax: "\<bar>x\<bar> = real_of_int \<bar>k\<bar> * (2 ^ j / B)"
    unfolding x B_def by (simp add: abs_mult)
  have xlt: "\<bar>x\<bar> < 2 ^ j / B * P"
  proof -
    have "real_of_int \<bar>k\<bar> * (2 ^ j / B) < P * (2 ^ j / B)"
      using kP B by (intro mult_strict_right_mono) simp_all
    then show ?thesis using ax by (simp add: mult.commute)
  qed
  have ij: "i \<le> j"
  proof (rule ccontr)
    assume "\<not> i \<le> j"
    then have ji: "j \<le> i - 1" and i0: "i \<noteq> 0" by simp_all
    have "(2::real) ^ j \<le> 2 ^ (i - 1)" using ji by (intro power_increasing) simp_all
    then have "2 ^ j / B * P \<le> 2 ^ (i - 1) / B * P"
      using B P by (simp add: divide_right_mono)
    with lo i0 xlt show False by simp
  qed
  define K :: int where "K = k * 2 ^ (j - i)"
  have xK: "x = of_int K * (2 ^ i / B)"
    unfolding x K_def B_def using pow2_split[OF ij] by simp
  have xq: "x / (2 ^ i / B) = of_int K" using xK B by simp
  show ?thesis unfolding r xq rne_of_int using xK by simp
qed

lemma fround_exact: "repr F x \<Longrightarrow> fround F x = Fin x"
  using repr_bound[of F x] by (auto simp: fround_def rnd_exact)

lemma repr_0 [simp]: "repr F 0"
  unfolding repr_def by (intro exI[of _ 0]) simp

lemma fround_0 [simp]: "fround F 0 = Fin 0"
  by (simp add: fround_exact)

lemma rnd_compare:
  assumes c: "repr F c"
  shows "(c \<le> x \<longrightarrow> c \<le> rnd F x) \<and> (x \<le> c \<longrightarrow> rnd F x \<le> c)"
proof -
  from c obtain k j where j: "j \<le> fspan F" and k: "\<bar>k\<bar> < 2 ^ fprec F"
    and ck: "c = of_int k * (2 ^ j / 2 ^ fbias F)" unfolding repr_def by blast
  define B :: real where "B = 2 ^ fbias F"
  define P :: real where "P = 2 ^ fprec F"
  have B: "0 < B" and P: "0 < P" by (simp_all add: B_def P_def)
  obtain i where i: "i \<le> fspan F"
    and r: "rnd F x = of_int (rne (x / (2 ^ i / B))) * (2 ^ i / B)"
    and lo: "i = 0 \<or> 2 ^ (i - 1) / B * P \<le> \<bar>x\<bar>"
    using rnd_unfold[of F x] unfolding B_def P_def by blast
  define Q where "Q = 2 ^ i / B"
  have Q: "0 < Q" unfolding Q_def using B by simp
  define K where "K = rne (x / Q)"
  have rK: "rnd F x = of_int K * Q" unfolding r K_def Q_def ..
  have kP: "real_of_int \<bar>k\<bar> < P" using int_less_pow2[OF k] unfolding P_def .
  have ac: "\<bar>c\<bar> = real_of_int \<bar>k\<bar> * (2 ^ j / B)"
    unfolding ck B_def by (simp add: abs_mult)
  have clt: "\<bar>c\<bar> < P * (2 ^ j / B)"
    unfolding ac using kP B by (intro mult_strict_right_mono) simp_all
  have int_case: "(c \<le> x \<longrightarrow> c \<le> rnd F x) \<and> (x \<le> c \<longrightarrow> rnd F x \<le> c)"
    if cC: "c = of_int C * Q" for C :: int
  proof -
    have cq: "c / Q = of_int C" using cC Q by simp
    have 1: "c \<le> x \<Longrightarrow> c \<le> rnd F x"
    proof -
      assume "c \<le> x"
      then have "c / Q \<le> x / Q" using Q by (simp add: divide_right_mono)
      then have "C \<le> K" unfolding cq K_def by (rule rne_lower)
      then have "of_int C * Q \<le> of_int K * Q" using Q by simp
      then show ?thesis using cC rK by simp
    qed
    have 2: "x \<le> c \<Longrightarrow> rnd F x \<le> c"
    proof -
      assume "x \<le> c"
      then have "x / Q \<le> c / Q" using Q by (simp add: divide_right_mono)
      then have "K \<le> C" unfolding cq K_def by (rule rne_upper)
      then have "of_int K * Q \<le> of_int C * Q" using Q by simp
      then show ?thesis using cC rK by simp
    qed
    from 1 2 show ?thesis by blast
  qed
  show ?thesis
  proof (cases "i \<le> j")
    case True
    have "c = of_int (k * 2 ^ (j - i)) * Q"
      unfolding ck B_def Q_def using pow2_split[OF True] by simp
    then show ?thesis by (rule int_case)
  next
    case False
    then have ji: "j \<le> i - 1" and i0: "i \<noteq> 0" by simp_all
    show ?thesis
    proof (cases "fprec F")
      case 0
      with k have "k = 0" by simp
      then have "c = of_int 0 * Q" using ck by simp
      then show ?thesis by (rule int_case)
    next
      case (Suc n)
      then have P2: "P = 2 * 2 ^ n" unfolding P_def by simp
      have "(2::real) ^ j \<le> 2 ^ (i - 1)" using ji by (intro power_increasing) simp_all
      then have "P * (2 ^ j / B) \<le> 2 ^ (i - 1) / B * P"
        using B P by (simp add: divide_right_mono mult.commute)
      with lo i0 clt have cx: "\<bar>c\<bar> < 2 ^ (i - 1) / B * P" and xb: "2 ^ (i - 1) / B * P \<le> \<bar>x\<bar>"
        by simp_all
      have i1: "(2::real) ^ i = 2 * 2 ^ (i - 1)" using i0 by (cases i) simp_all
      define H :: int where "H = 2 ^ n"
      have half: "2 ^ (i - 1) / B * P = of_int H * Q"
        unfolding Q_def H_def P2 i1 by simp
      have 1: "c \<le> x \<Longrightarrow> c \<le> rnd F x"
      proof -
        assume cx': "c \<le> x"
        have "0 \<le> x" using cx' cx xb by linarith
        then have "of_int H * Q \<le> x" using xb half by simp
        then have "of_int H \<le> x / Q" using Q by (simp add: pos_le_divide_eq)
        then have "H \<le> K" unfolding K_def by (rule rne_lower)
        then have "of_int H * Q \<le> of_int K * Q" using Q by simp
        then show ?thesis using rK cx half by linarith
      qed
      have 2: "x \<le> c \<Longrightarrow> rnd F x \<le> c"
      proof -
        assume cx': "x \<le> c"
        have "x \<le> 0" using cx' cx xb by linarith
        then have "x \<le> of_int (- H) * Q" using xb half by simp
        then have "x / Q \<le> of_int (- H)" using Q by (simp add: pos_divide_le_eq)
        then have "K \<le> - H" unfolding K_def by (rule rne_upper)
        then have "of_int K * Q \<le> of_int (- H) * Q" using Q by (simp del: of_int_minus)
        then show ?thesis using rK cx half by simp
      qed
      from 1 2 show ?thesis by blast
    qed
  qed
qed

lemma rnd_ge: "repr F c \<Longrightarrow> c \<le> x \<Longrightarrow> c \<le> rnd F x"
  using rnd_compare by blast

lemma rnd_le: "repr F c \<Longrightarrow> x \<le> c \<Longrightarrow> rnd F x \<le> c"
  using rnd_compare by blast

lemma rnd_sign: "(0 \<le> x \<longrightarrow> 0 \<le> rnd F x) \<and> (x \<le> 0 \<longrightarrow> rnd F x \<le> 0)"
  using rnd_compare[of F 0 x] by simp


lemma rne_err: "\<bar>of_int (rne x) - x\<bar> \<le> 1 / 2"
proof -
  have "of_int \<lfloor>x\<rfloor> \<le> x" "x < of_int \<lfloor>x\<rfloor> + 1" by linarith+
  then show ?thesis by (auto simp: rne_def Let_def)
qed

lemma rne_eqI:
  assumes "\<bar>x - of_int k\<bar> < 1 / 2"
  shows "rne x = k"
proof -
  have "\<bar>real_of_int (rne x) - real_of_int k\<bar> < 1" using rne_err[of x] assms by linarith
  then have "\<bar>real_of_int (rne x - k)\<bar> < 1" by simp
  then have "\<bar>rne x - k\<bar> < 1" by linarith
  then show ?thesis by simp
qed

lemma rnd_eqI:
  assumes "j \<le> fspan F"
    and "j = fspan F \<or> \<bar>x\<bar> < 2 ^ j / 2 ^ fbias F * 2 ^ fprec F"
    and "j = 0 \<or> 2 ^ (j - 1) / 2 ^ fbias F * 2 ^ fprec F \<le> \<bar>x\<bar>"
    and "\<bar>x / (2 ^ j / 2 ^ fbias F) - of_int k\<bar> < 1 / 2"
  shows "rnd F x = of_int k * (2 ^ j / 2 ^ fbias F)"
proof -
  have "quantum (fprec F) (fspan F) (1 / 2 ^ fbias F) \<bar>x\<bar> = 1 / 2 ^ fbias F * 2 ^ j"
    using assms(1-3) by (intro quantum_eqI) simp_all
  then show ?thesis using rne_eqI[OF assms(4)] by (simp add: rnd_def)
qed

lemma rnd_repr:
  assumes ov: "\<bar>rnd F x\<bar> < 2 ^ fprec F * (2 ^ fspan F / 2 ^ fbias F)" and p: "0 < fprec F"
  shows "repr F (rnd F x)"
proof -
  define B :: real where "B = 2 ^ fbias F"
  define P :: real where "P = 2 ^ fprec F"
  have B: "0 < B" and P: "0 < P" by (simp_all add: B_def P_def)
  obtain i where i: "i \<le> fspan F"
    and r: "rnd F x = of_int (rne (x / (2 ^ i / B))) * (2 ^ i / B)"
    and up: "i = fspan F \<or> \<bar>x\<bar> < 2 ^ i / B * P"
    using rnd_unfold[of F x] unfolding B_def P_def by blast
  define Q where "Q = 2 ^ i / B"
  have Q: "0 < Q" unfolding Q_def using B by simp
  define K where "K = rne (x / Q)"
  have rK: "rnd F x = of_int K * Q" unfolding r K_def Q_def ..
  have absr: "\<bar>rnd F x\<bar> = real_of_int \<bar>K\<bar> * Q" unfolding rK using Q by (simp add: abs_mult)
  have KP: "\<bar>K\<bar> \<le> 2 ^ fprec F"
  proof (cases "i = fspan F")
    case True
    have "real_of_int \<bar>K\<bar> * Q < P * Q"
      using ov unfolding absr Q_def True B_def P_def by simp
    then have "real_of_int \<bar>K\<bar> < P" using mult_less_cancel_right_pos[OF Q] by blast
    then have "real_of_int \<bar>K\<bar> < real_of_int (2 ^ fprec F)" unfolding P_def by simp
    then show ?thesis by linarith
  next
    case False
    with up have "\<bar>x\<bar> < P * Q" unfolding Q_def by (simp add: mult.commute)
    then have "\<bar>x\<bar> / Q < P" using Q by (simp add: pos_divide_less_eq)
    then have xq: "\<bar>x / Q\<bar> < P" using Q by simp
    have Pi: "P = real_of_int (2 ^ fprec F)" unfolding P_def by simp
    have "x / Q \<le> P" "- P \<le> x / Q" using xq by linarith+
    then have b: "x / Q \<le> real_of_int (2 ^ fprec F)" "real_of_int (- (2 ^ fprec F)) \<le> x / Q"
      unfolding Pi by simp_all
    have 1: "K \<le> 2 ^ fprec F" unfolding K_def using b(1) by (rule rne_upper)
    have 2: "- (2 ^ fprec F) \<le> K" unfolding K_def using b(2) by (rule rne_lower)
    from 1 2 show ?thesis by linarith
  qed
  show ?thesis
  proof (cases "\<bar>K\<bar> < 2 ^ fprec F")
    case True
    then show ?thesis unfolding repr_def rK Q_def B_def using i by blast
  next
    case False
    with KP have Keq: "\<bar>K\<bar> = 2 ^ fprec F" by simp
    have isp: "i \<noteq> fspan F"
    proof
      assume "i = fspan F"
      then have "\<bar>rnd F x\<bar> = 2 ^ fprec F * (2 ^ fspan F / 2 ^ fbias F)"
        unfolding absr Keq Q_def B_def by simp
      with ov show False by simp
    qed
    show ?thesis
    proof (cases "fprec F")
      case 0
      with p show ?thesis by simp
    next
      case (Suc n)
      define K' :: int where "K' = (if 0 \<le> K then 2 ^ n else - (2 ^ n))"
      have "K = 2 * K'" using Keq Suc unfolding K'_def by (cases "0 \<le> K") auto
      then have "rnd F x = of_int K' * (2 ^ Suc i / 2 ^ fbias F)"
        unfolding rK Q_def B_def by simp
      moreover have "\<bar>K'\<bar> < 2 ^ fprec F" unfolding K'_def Suc by simp
      moreover have "Suc i \<le> fspan F" using i isp by simp
      ultimately show ?thesis unfolding repr_def by blast
    qed
  qed
qed


lemma fround_cases:
  assumes "0 < fprec F"
  obtains (pinf) "fround F x = PInf" "0 < x"
  | (ninf) "fround F x = NInf" "x < 0"
  | (mzero) "fround F x = MZero" "x < 0"
  | (fin) "fround F x = Fin (rnd F x)" "repr F (rnd F x)" "rnd F x = 0 \<longrightarrow> 0 \<le> x"
proof (cases "2 ^ fprec F * (2 ^ fspan F / 2 ^ fbias F) \<le> \<bar>rnd F x\<bar>")
  case True
  have pos: "(0::real) < 2 ^ fprec F * (2 ^ fspan F / 2 ^ fbias F)" by simp
  from True pos have "0 < \<bar>rnd F x\<bar>" by linarith
  then have "rnd F x \<noteq> 0" by simp
  then have "x \<noteq> 0" using rnd_exact[of F 0] by auto
  then show ?thesis using True pinf ninf by (cases "x < 0") (auto simp: fround_def)
next
  case False
  then have "repr F (rnd F x)" using assms by (intro rnd_repr) simp_all
  then show ?thesis using False mzero fin by (cases "rnd F x = 0 \<and> x < 0") (auto simp: fround_def)
qed

lemma fround_not_NaN [simp]: "fround F x \<noteq> NaN"
  by (simp add: fround_def Let_def)

lemma fround_ge:
  assumes "repr F c" "c \<le> x"
  shows "fround F x \<noteq> NInf \<and> (fround F x = PInf \<or> c \<le> rval (fround F x))"
proof -
  have c: "c \<le> rnd F x" using assms by (rule rnd_ge)
  have "\<not> (x < 0 \<and> 2 ^ fprec F * (2 ^ fspan F / 2 ^ fbias F) \<le> \<bar>rnd F x\<bar>)"
  proof
    assume a: "x < 0 \<and> 2 ^ fprec F * (2 ^ fspan F / 2 ^ fbias F) \<le> \<bar>rnd F x\<bar>"
    then have "rnd F x \<le> 0" using rnd_sign[of x F] by simp
    with c a have "2 ^ fprec F * (2 ^ fspan F / 2 ^ fbias F) \<le> \<bar>c\<bar>" by linarith
    with repr_bound[OF assms(1)] show False by simp
  qed
  then show ?thesis using c by (auto simp: fround_def Let_def)
qed

lemma fround_le:
  assumes "repr F c" "x \<le> c"
  shows "fround F x \<noteq> PInf \<and> (fround F x = NInf \<or> rval (fround F x) \<le> c)"
proof -
  have c: "rnd F x \<le> c" using assms by (rule rnd_le)
  have "\<not> (\<not> x < 0 \<and> 2 ^ fprec F * (2 ^ fspan F / 2 ^ fbias F) \<le> \<bar>rnd F x\<bar>)"
  proof
    assume a: "\<not> x < 0 \<and> 2 ^ fprec F * (2 ^ fspan F / 2 ^ fbias F) \<le> \<bar>rnd F x\<bar>"
    then have "0 \<le> rnd F x" using rnd_sign[of x F] by simp
    with c a have "2 ^ fprec F * (2 ^ fspan F / 2 ^ fbias F) \<le> \<bar>c\<bar>" by linarith
    with repr_bound[OF assms(1)] show False by simp
  qed
  then show ?thesis using c by (auto simp: fround_def Let_def)
qed

lemma repr_scaled:
  assumes "\<bar>k\<bar> < 2 ^ fprec F" "e + fbias F \<le> fspan F"
  shows "repr F (of_int k * 2 ^ e)"
  unfolding repr_def using assms
  by (intro exI[of _ k] exI[of _ "e + fbias F"]) (simp add: power_add)

lemma repr_frac:
  assumes "\<bar>k\<bar> < 2 ^ fprec F" "d \<le> fbias F" "fbias F \<le> fspan F"
  shows "repr F (of_int k / 2 ^ d)"
proof -
  have "(2::real) ^ fbias F = 2 ^ (fbias F - d) * 2 ^ d" using assms(2) by (rule pow2_split)
  then have "real_of_int k / 2 ^ d = of_int k * (2 ^ (fbias F - d) / 2 ^ fbias F)" by simp
  then show ?thesis unfolding repr_def using assms by (intro exI[of _ k] exI[of _ "fbias F - d"]) simp
qed

lemma binary32_simps [simp]: "fprec binary32 = 24" "fbias binary32 = 149" "fspan binary32 = 253"
  by (simp_all add: binary32_def)

lemma binary64_simps [simp]: "fprec binary64 = 53" "fbias binary64 = 1074" "fspan binary64 = 2045"
  by (simp_all add: binary64_def)

lemma repr32_int: "\<bar>i\<bar> < 2 ^ 24 \<Longrightarrow> repr binary32 (of_int i)"
  using repr_scaled[of i binary32 0] by simp

lemma repr64_int: "\<bar>i\<bar> < 2 ^ 53 \<Longrightarrow> repr binary64 (of_int i)"
  using repr_scaled[of i binary64 0] by simp

lemma repr32_frac: "\<bar>k\<bar> < 2 ^ 24 \<Longrightarrow> d \<le> 149 \<Longrightarrow> repr binary32 (of_int k / 2 ^ d)"
  using repr_frac[of k binary32 d] by simp

lemma repr64_frac: "\<bar>k\<bar> < 2 ^ 53 \<Longrightarrow> d \<le> 1074 \<Longrightarrow> repr binary64 (of_int k / 2 ^ d)"
  using repr_frac[of k binary64 d] by simp

lemma repr32_64:
  assumes "repr binary32 x"
  shows "repr binary64 x"
proof -
  from assms obtain k j where j: "j \<le> 253" and k: "\<bar>k\<bar> < 2 ^ 24"
    and x: "x = of_int k * (2 ^ j / 2 ^ 149)" unfolding repr_def by auto
  have "(2::real) ^ (j + 925) / 2 ^ 1074 = 2 ^ j / 2 ^ 149"
    by (simp add: power_add)
  then have "x = of_int k * (2 ^ (j + 925) / 2 ^ 1074)" using x by simp
  moreover have "\<bar>k\<bar> < 2 ^ 53" using k by simp
  ultimately show ?thesis unfolding repr_def using j
    by (intro exI[of _ k] exI[of _ "j + 925"]) simp
qed

lemma lit_1e9_eq: "lit_1e9 = Fin 1000000000"
  unfolding lit_1e9_def using fround_exact[OF repr64_int[of 1000000000]] by simp

lemma lit_half_eq: "lit_half = Fin (1 / 2)"
  unfolding lit_half_def using fround_exact[OF repr64_frac[of 1 1]] by simp


section \<open>Zeros, and a successful InitGyro\<close>

lemma is_zero_fzero [simp]: "is_zero (fzero s)"
  by (simp add: fzero_def)

lemma fzero_not_special [simp]: "fzero s \<noteq> NaN" "\<not> isinf (fzero s)" "fzero s \<noteq> PInf" "fzero s \<noteq> NInf"
  by (simp_all add: fzero_def)

lemma is_zero_cases: "is_zero a \<Longrightarrow> a = Fin 0 \<or> a = MZero"
  by (cases a) auto

lemma is_zero_not_special: "is_zero a \<Longrightarrow> a \<noteq> NaN \<and> \<not> isinf a"
  by (cases a) auto

lemma fmul_zero_left:
  "is_zero a \<Longrightarrow> b \<noteq> NaN \<Longrightarrow> \<not> isinf b \<Longrightarrow> fmul F a b = fzero (isneg a \<noteq> isneg b)"
  using is_zero_not_special[of a] by (simp add: fmul_def Let_def)

lemma fdiv_zero_left:
  "is_zero a \<Longrightarrow> b \<noteq> NaN \<Longrightarrow> \<not> is_zero b \<Longrightarrow> fdiv F a b = fzero (isneg a \<noteq> isneg b)"
  using is_zero_not_special[of a] by (simp add: fdiv_def Let_def)

lemma to_float_zero: "is_zero a \<Longrightarrow> is_zero (to_float a)"
  by (cases a) auto

lemma to_integer_zero: "is_zero a \<Longrightarrow> lo \<le> 0 \<Longrightarrow> 0 \<le> hi \<Longrightarrow> to_integer lo hi a = Inr 0"
  by (cases a) (auto simp: trunc_zero_def)

lemma of_integer64_sint: "of_integer binary64 (sint (w :: 32 word)) = Fin (of_int (sint w))"
proof -
  have "- (2 ^ 31) \<le> sint w" "sint w < 2 ^ 31" using sint_ge[of w] sint_lt[of w] by simp_all
  moreover have "(2::int) ^ 31 < 2 ^ 53" by simp
  ultimately have "\<bar>sint w\<bar> < 2 ^ 53" by linarith
  then show ?thesis unfolding of_integer_def by (intro fround_exact repr64_int)
qed

lemma shl1_defined: "unat n < 32 \<Longrightarrow> shl1 n = Inr (sint (push_bit (unat n) (1 :: 32 word)))"
  by (simp add: shl1_def)

lemma SetDeadband_zero:
  assumes "\<not> StatusIsFatal g" "m_analog g \<noteq> None" "unat (oversampleBits (the (m_analog g))) < 32"
    "lsbWeight (the (m_analog g)) \<noteq> NaN" "\<not> is_zero (lsbWeight (the (m_analog g)))"
  shows "SetDeadband (Fin 0) g
           = Inr (g\<lparr>m_analog := Some ((the (m_analog g))\<lparr>accumulatorDeadband := 0\<rparr>)\<rparr>)"
proof -
  obtain a where a: "m_analog g = Some a" using assms(2) by blast
  define s where "s = sint (push_bit (unat (oversampleBits a)) (1 :: 32 word))"
  have sh: "shl1 (oversampleBits a) = Inr s" using assms(3) a by (simp add: shl1_defined s_def)
  have 1: "fmul binary64 (Fin 0) lit_1e9 = Fin 0"
    by (simp add: lit_1e9_eq fmul_def fzero_def)
  have 2: "fdiv binary64 (Fin 0) (lsbWeight a) = fzero (isneg (lsbWeight a))"
    using assms(4,5) a by (simp add: fdiv_zero_left)
  have 3: "fmul binary64 (fzero (isneg (lsbWeight a))) (of_integer binary64 s)
             = fzero (isneg (fzero (isneg (lsbWeight a))) \<noteq> isneg (of_integer binary64 s))"
    unfolding s_def of_integer64_sint by (intro fmul_zero_left) simp_all
  have 4: "to_int32 (fzero b) = Inr 0" for b
    by (simp add: to_int32_def to_integer_zero)
  show ?thesis
    using assms(1) a by (simp add: SetDeadband_def sh 1 2 3 4)
qed

lemma sample_config [simp]:
  "accumulatorChannel (sample hw d a) = accumulatorChannel a"
  "channelId (sample hw d a) = channelId a"
  "averageBits (sample hw d a) = averageBits a"
  "oversampleBits (sample hw d a) = oversampleBits a"
  "sampleRate (sample hw d a) = sampleRate a"
  "lsbWeight (sample hw d a) = lsbWeight a"
  "accumulatorCenter (sample hw d a) = accumulatorCenter a"
  "accumulatorDeadband (sample hw d a) = accumulatorDeadband a"
  by (simp_all add: sample_def split: prod.splits)

lemma InitGyro_accepts:
  assumes "\<not> StatusIsFatal g" "m_analog g = Some a" "accumulatorChannel a"
    "unat (kAverageBits K + kOversampleBits K) < 32" "unat (kOversampleBits K) < 32"
    "lsbWeight a \<noteq> NaN" "\<not> is_zero (lsbWeight a)"
  shows "InitGyro K hw g =
    Inr (g\<lparr>m_analog := Some ((sample hw lit_tenth
              (a\<lparr>averageBits := kAverageBits K, oversampleBits := kOversampleBits K,
                 sampleRate := fmul binary32 (kSamplesPerSecond K)
                   (of_integer binary32
                      (sint (push_bit (unat (kAverageBits K + kOversampleBits K)) (1 :: 32 word))))\<rparr>))
              \<lparr>accumulatorDeadband := 0\<rparr>),
           m_voltsPerDegreePerSecond := kDefaultVoltsPerDegreePerSecond K,
           m_pidSource := kDisplacement,
           events := events g @ [WaitEv lit_tenth, HALReportGyro (channelId a),
                                 LiveWindowAddSensor (channelId a)]\<rparr>)"
  using assms
  by (simp add: InitGyro_def shl1_defined Wait_def Let_def SetDeadband_zero StatusIsFatal_def)


section \<open>Shifts, literals and evaluation\<close>

lemma sint_pow2:
  assumes "n < 31"
  shows "sint (push_bit n (1 :: 32 word)) = 2 ^ n"
proof -
  have lt: "(2::int) ^ n < 2 ^ 31" using assms by (intro power_strict_increasing) simp_all
  have "push_bit n (1 :: 32 word) = word_of_int (2 ^ n)" by simp
  then have "sint (push_bit n (1 :: 32 word)) = sint (word_of_int (2 ^ n) :: 32 word)"
    by (simp only:)
  also have "\<dots> = signed_take_bit 31 ((2::int) ^ n)"
    unfolding sint_sbintrunc' by simp
  also have "\<dots> = 2 ^ n"
  proof (rule signed_take_bit_int_eq_self)
    have "- (2 ^ 31) \<le> (0::int)" by simp
    also have "(0::int) \<le> 2 ^ n" by simp
    finally show "- (2 ^ 31) \<le> (2::int) ^ n" .
    show "(2::int) ^ n < 2 ^ 31" by (rule lt)
  qed
  finally show ?thesis .
qed

lemma shl1_pow: "unat n < 31 \<Longrightarrow> shl1 n = Inr (2 ^ unat n)"
  by (simp add: shl1_def sint_pow2 del: push_bit_of_1)

lemma of_integer64_pow2: "n < 53 \<Longrightarrow> of_integer binary64 (2 ^ n) = Fin (2 ^ n)"
proof -
  assume "n < 53"
  then have "(2::int) ^ n < 2 ^ 53" by (intro power_strict_increasing) simp_all
  then have "repr binary64 (of_int (2 ^ n))" by (intro repr64_int) simp
  then show ?thesis unfolding of_integer_def using fround_exact by fastforce
qed

lemma fround_frac_eqI:
  assumes d: "d \<le> fbias F" and sp: "fbias F < fspan F"
    and up: "\<bar>x\<bar> * 2 ^ d < 2 ^ fprec F"
    and lo: "d = fbias F \<or> 2 ^ fprec F \<le> 2 * (\<bar>x\<bar> * 2 ^ d)"
    and r: "\<bar>x * 2 ^ d - of_int k\<bar> < 1 / 2"
    and nz: "k \<noteq> 0 \<or> 0 \<le> x"
  shows "fround F x = Fin (of_int k / 2 ^ d)"
proof -
  define j where "j = fbias F - d"
  have q: "(2::real) ^ j / 2 ^ fbias F = 1 / 2 ^ d"
    using pow2_split[OF d] unfolding j_def by simp
  have "rnd F x = of_int k * (2 ^ j / 2 ^ fbias F)"
  proof (rule rnd_eqI)
    show "j \<le> fspan F" using sp unfolding j_def by simp
    show "j = fspan F \<or> \<bar>x\<bar> < 2 ^ j / 2 ^ fbias F * 2 ^ fprec F"
      unfolding q using up by (simp add: field_simps)
    show "j = 0 \<or> 2 ^ (j - 1) / 2 ^ fbias F * 2 ^ fprec F \<le> \<bar>x\<bar>"
    proof (cases "j = 0")
      case False
      then have dne: "d \<noteq> fbias F" unfolding j_def using d by simp
      have "(2::real) ^ j = 2 * 2 ^ (j - 1)" using False by (cases j) simp_all
      then have "(2::real) ^ (j - 1) / 2 ^ fbias F = 1 / (2 * 2 ^ d)" using q by (simp add: field_simps)
      then show ?thesis using lo dne by (simp add: field_simps)
    qed simp
    show "\<bar>x / (2 ^ j / 2 ^ fbias F) - of_int k\<bar> < 1 / 2" unfolding q using r by simp
  qed
  then have y: "rnd F x = of_int k / 2 ^ d" unfolding q by simp
  define X where "X = x * 2 ^ d"
  have "\<bar>X\<bar> < 2 ^ fprec F" using up by (simp add: X_def abs_mult)
  moreover have "\<bar>X - real_of_int k\<bar> < 1 / 2" using r by (simp add: X_def)
  ultimately have "\<bar>real_of_int k\<bar> < 2 ^ fprec F + 1 / 2" by linarith
  then have "\<bar>real_of_int k\<bar> < real_of_int (2 ^ fprec F + 1)" by simp
  then have "\<bar>k\<bar> < 2 ^ fprec F + 1" by linarith
  then have kb: "\<bar>real_of_int k\<bar> \<le> 2 ^ fprec F"
    by (metis of_int_abs of_int_le_iff of_int_numeral of_int_power zle_add1_eq_le)
  have "(1::real) \<le> 2 ^ d" by simp
  then have "\<bar>real_of_int k\<bar> * 1 \<le> \<bar>real_of_int k\<bar> * 2 ^ d"
    by (intro mult_left_mono) simp_all
  then have "\<bar>real_of_int k / 2 ^ d\<bar> \<le> \<bar>real_of_int k\<bar>"
    by (simp add: field_simps)
  also have "\<dots> \<le> 2 ^ fprec F * 1" using kb by simp
  also have "\<dots> < 2 ^ fprec F * (2 ^ fspan F / 2 ^ fbias F)"
  proof (rule mult_strict_left_mono)
    have "(2::real) ^ fbias F < 2 ^ fspan F" using sp by (intro power_strict_increasing) simp_all
    then show "(1::real) < 2 ^ fspan F / 2 ^ fbias F" by simp
  qed simp
  finally have nov: "\<not> 2 ^ fprec F * (2 ^ fspan F / 2 ^ fbias F) \<le> \<bar>rnd F x\<bar>" unfolding y by simp
  have "\<not> (rnd F x = 0 \<and> x < 0)" using nz unfolding y by auto
  with nov show ?thesis unfolding fround_def Let_def y by auto
qed

lemma lit_1e_9_eq: "lit_1e_9 = Fin (4835703278458517 / 2 ^ 82)"
  unfolding lit_1e_9_def
  using fround_frac_eqI[of 82 binary64 "1 / 10 ^ 9" 4835703278458517]
  by simp

lemma fround32_example: "fround binary32 (104999 / 10000) = Fin (11009943 / 2 ^ 20)"
  using fround_frac_eqI[of 20 binary32 "104999 / 10000" 11009943]
  by simp


lemma lit_1e_9_finite [simp]:
  "lit_1e_9 \<noteq> NaN" "\<not> isinf lit_1e_9" "\<not> isneg lit_1e_9" "\<not> is_zero lit_1e_9"
  by (simp_all add: lit_1e_9_eq)

lemma sint_word_of_int32:
  assumes "- (2 ^ 31) \<le> i" "i < 2 ^ 31"
  shows "sint (word_of_int i :: 32 word) = i"
  unfolding sint_sbintrunc' using assms by (simp add: signed_take_bit_int_eq_self)

lemma of_integer_0 [simp]: "of_integer F 0 = Fin 0"
  by (simp add: of_integer_def)

section \<open>Values of binary32\<close>

lemma pow2_div_ge: "b \<le> j \<Longrightarrow> (2::real) ^ j / 2 ^ b = 2 ^ (j - b)"
  using pow2_split[of b j] by simp

lemma pow2_div_le: "j \<le> b \<Longrightarrow> (2::real) ^ j / 2 ^ b = 1 / 2 ^ (b - j)"
  using pow2_split[of j b] by simp

lemma repr_cases:
  assumes "repr F m"
  obtains (int) M :: int where "m = of_int M"
  | (frac) K e where "1 \<le> e" "e \<le> fbias F" "\<bar>K\<bar> < 2 ^ fprec F" "m = of_int K / 2 ^ e"
proof -
  from assms obtain k j where k: "\<bar>k\<bar> < 2 ^ fprec F"
    and m: "m = of_int k * (2 ^ j / 2 ^ fbias F)" unfolding repr_def by auto
  show thesis
  proof (cases "fbias F \<le> j")
    case True
    then have "m = of_int (k * 2 ^ (j - fbias F))" unfolding m by (simp add: pow2_div_ge)
    then show ?thesis by (rule int)
  next
    case False
    then have "m = of_int k / 2 ^ (fbias F - j)" unfolding m by (simp add: pow2_div_le)
    then show ?thesis using False k by (intro frac[of "fbias F - j" k]) simp_all
  qed
qed

lemma repr32_cases:
  assumes "repr binary32 m"
  obtains (int) M :: int where "m = of_int M"
  | (frac) K e where "1 \<le> e" "e \<le> 149" "\<bar>K\<bar> < 2 ^ 24" "m = of_int K / 2 ^ e"
  using assms
proof (cases rule: repr_cases)
  case (int M)
  then show ?thesis by (rule that(1))
next
  case (frac K e)
  show ?thesis
  proof (rule that(2))
    show "1 \<le> e" by (rule frac(1))
    show "e \<le> 149" using frac(2) by simp
    show "\<bar>K\<bar> < 2 ^ 24" using frac(3) by simp
    show "m = of_int K / 2 ^ e" by (rule frac(4))
  qed
qed

lemma trunc_zero_pos: "0 \<le> x \<Longrightarrow> trunc_zero x = \<lfloor>x\<rfloor>"
  by (simp add: trunc_zero_def)

lemma trunc_zero_small: "- 1 < x \<Longrightarrow> x < 1 \<Longrightarrow> trunc_zero x = 0"
  unfolding trunc_zero_def by (auto simp: floor_eq_iff ceiling_eq_iff)

lemma trunc_zero_le: "x \<le> of_int n \<Longrightarrow> n \<le> 0 \<Longrightarrow> trunc_zero x \<le> n"
  unfolding trunc_zero_def by (auto simp: ceiling_le_iff floor_le_iff)

lemma trunc_zero_ge: "of_int n \<le> x \<Longrightarrow> 0 \<le> n \<Longrightarrow> n \<le> trunc_zero x"
  unfolding trunc_zero_def by (auto simp: le_floor_iff le_ceiling_iff)


subsection \<open>Adding 0.5 in double precision to a value of binary32\<close>

lemma half_add_exact_frac:
  assumes "1 \<le> e" "e \<le> 50" "\<bar>K\<bar> < 2 ^ 24"
  shows "repr binary64 (of_int K / 2 ^ e + 1 / 2)"
proof -
  obtain n where e: "e = Suc n" using assms(1) by (cases e) auto
  have eq: "of_int K / 2 ^ e + 1 / 2 = real_of_int (K + 2 ^ n) / 2 ^ e"
    unfolding e by (simp add: field_simps)
  have "repr binary64 (real_of_int (K + 2 ^ n) / 2 ^ e)"
  proof (rule repr64_frac)
    define P :: int where "P = 2 ^ n"
    have "P < 2 ^ 50" unfolding P_def using assms(2) e by (intro power_strict_increasing) simp_all
    moreover have "0 < P" unfolding P_def by simp
    ultimately have "\<bar>K + P\<bar> < 2 ^ 53" using assms(3) by simp
    then show "\<bar>K + 2 ^ n\<bar> < 2 ^ 53" unfolding P_def .
    show "e \<le> 1074" using assms(2) by simp
  qed
  then show ?thesis unfolding eq .
qed

lemma half_add_exact_int:
  assumes "\<bar>M\<bar> < 2 ^ 51"
  shows "repr binary64 (of_int M + 1 / 2)"
proof -
  have eq: "of_int M + 1 / 2 = real_of_int (2 * M + 1) / 2 ^ 1" by simp
  have "repr binary64 (real_of_int (2 * M + 1) / 2 ^ 1)"
    using assms by (intro repr64_frac) simp_all
  then show ?thesis unfolding eq .
qed

lemma repr64_consts: "repr binary64 (- 1)" "repr binary64 (2 ^ 32)" "repr binary64 (1 / 4)"
  "repr binary64 (3 / 4)"
  using repr64_int[of "- 1"] repr64_int[of "2 ^ 32"] repr64_frac[of 1 2] repr64_frac[of 3 2]
  by simp_all

lemma half_add_trunc:
  assumes m: "repr binary32 m" and lo: "- 1 < m + 1 / 2" and hi: "m + 1 / 2 < 2 ^ 32"
  shows "trunc_zero (rnd binary64 (m + 1 / 2)) = trunc_zero (m + 1 / 2)"
  using m
proof (cases rule: repr32_cases)
  case (int M)
  have "real_of_int (- 2) < real_of_int M" "real_of_int M < real_of_int (2 ^ 32)"
    using lo hi int by simp_all
  then have "- 2 < M" "M < 2 ^ 32" by (simp_all only: of_int_less_iff)
  then have "\<bar>M\<bar> < 2 ^ 51" by simp
  then show ?thesis unfolding int by (simp add: rnd_exact half_add_exact_int)
next
  case (frac K e)
  show ?thesis
  proof (cases "e \<le> 50")
    case True
    then show ?thesis unfolding frac(4) using frac(1,3) by (simp add: rnd_exact half_add_exact_frac)
  next
    case False
    then have "(2::real) ^ 26 \<le> 2 ^ e" by (intro power_increasing) simp_all
    moreover have "\<bar>real_of_int K\<bar> < 2 ^ 24" using int_less_pow2[OF frac(3)] by simp
    ultimately have "\<bar>real_of_int K\<bar> * 4 < 2 ^ e" by simp
    then have "\<bar>m\<bar> < 1 / 4" unfolding frac(4) by (simp add: field_simps)
    then have s: "1 / 4 \<le> m + 1 / 2" "m + 1 / 2 \<le> 3 / 4" by linarith+
    have "1 / 4 \<le> rnd binary64 (m + 1 / 2)" using repr64_consts(3) s(1) by (rule rnd_ge)
    moreover have "rnd binary64 (m + 1 / 2) \<le> 3 / 4" using repr64_consts(4) s(2) by (rule rnd_le)
    ultimately have "trunc_zero (rnd binary64 (m + 1 / 2)) = 0" by (intro trunc_zero_small) simp_all
    moreover have "trunc_zero (m + 1 / 2) = 0" using s by (intro trunc_zero_small) simp_all
    ultimately show ?thesis by simp
  qed
qed


subsection \<open>The center is a value of binary32, and so is the rest\<close>

lemma offset_exact:
  assumes m: "repr binary32 m" and lo: "- 1 < m + 1 / 2"
  defines "t \<equiv> trunc_zero (m + 1 / 2)"
  shows "repr binary32 (of_int t) \<and> repr binary32 (m - of_int t)"
proof (cases "m + 1 / 2 < 1")
  case True
  then have "t = 0" unfolding t_def using lo by (intro trunc_zero_small)
  then show ?thesis using m by simp
next
  case False
  then have s1: "1 \<le> m + 1 / 2" by simp
  then have t: "t = \<lfloor>m + 1 / 2\<rfloor>" unfolding t_def by (simp add: trunc_zero_pos)
  have tb: "of_int t \<le> m + 1 / 2" "m + 1 / 2 < of_int t + 1" unfolding t by linarith+
  from m show ?thesis
  proof (cases rule: repr32_cases)
    case (int M)
    have "t = M" unfolding t int by (simp add: floor_eq_iff)
    then show ?thesis using m int by simp
  next
    case (frac K e)
    define P :: real where "P = 2 ^ e"
    have P: "0 < P" "2 \<le> P" unfolding P_def using frac(1) by (simp, cases e) simp_all
    have mK: "m * P = of_int K" unfolding frac(4) P_def by simp
    have Kb: "\<bar>real_of_int K\<bar> < 2 ^ 24" using int_less_pow2[OF frac(3)] by simp
    have "1 / 2 \<le> m" using s1 by simp
    then have "P * (1 / 2) \<le> P * m" using P(1) by (intro mult_left_mono) simp_all
    then have Pb: "P < 2 ^ 25" using mK Kb by (simp add: mult.commute)
    have mb: "m < 2 ^ 23"
    proof -
      have "m * 2 \<le> m * P" using P(2) \<open>1 / 2 \<le> m\<close> by (intro mult_left_mono) simp_all
      then show ?thesis using mK Kb by simp
    qed
    have "real_of_int t < real_of_int (2 ^ 24)" using tb(1) mb by simp
    then have t24: "t < 2 ^ 24" by (simp only: of_int_less_iff)
    have t0: "0 \<le> t" unfolding t using s1 by simp
    have r1: "repr binary32 (of_int t)" using t0 t24 by (intro repr32_int) simp
    define D :: int where "D = K - t * 2 ^ e"
    have D: "real_of_int D = (m - of_int t) * P" unfolding D_def P_def frac(4) by (simp add: field_simps)
    have "\<bar>m - of_int t\<bar> \<le> 1 / 2" using tb by linarith
    then have a: "\<bar>m - of_int t\<bar> * P \<le> 1 / 2 * P" using P(1) by (intro mult_right_mono) simp_all
    have b: "1 / 2 * P < 2 ^ 24" using Pb by simp
    have "\<bar>real_of_int D\<bar> = \<bar>m - of_int t\<bar> * P" unfolding D using P(1) by (simp add: abs_mult)
    with a b have "\<bar>real_of_int D\<bar> < 2 ^ 24" by linarith
    then have "\<bar>real_of_int D\<bar> < real_of_int (2 ^ 24)" by simp
    then have "\<bar>D\<bar> < 2 ^ 24" by linarith
    then have "repr binary32 (of_int D / 2 ^ e)" using frac(2) by (intro repr32_frac)
    moreover have "of_int D / 2 ^ e = m - of_int t" unfolding D P_def by simp
    ultimately show ?thesis using r1 by simp
  qed
qed

lemma center_conversion:
  assumes m: "repr binary32 m"
  shows "to_uint32 (fadd binary64 (Fin m) lit_half) =
           (if - 1 < m + 1 / 2 \<and> m + 1 / 2 < 2 ^ 32
            then Inr (word_of_int (trunc_zero (m + 1 / 2))) else Inl UndefinedConversion)"
proof (cases "m + 1 / 2 = 0")
  case True
  then show ?thesis by (simp add: lit_half_eq fadd_def to_uint32_def trunc_zero_def)
next
  case False
  define s where "s = m + 1 / 2"
  have f: "fadd binary64 (Fin m) lit_half = fround binary64 s"
    using False by (simp add: lit_half_eq fadd_def s_def)
  have p: "0 < fprec binary64" by simp
  have ge: "- 1 \<le> s \<Longrightarrow> fround binary64 s \<noteq> NInf \<and> (fround binary64 s = PInf \<or> - 1 \<le> rval (fround binary64 s))"
    using fround_ge[OF repr64_consts(1)] by blast
  have le: "s \<le> 2 ^ 32 \<Longrightarrow> fround binary64 s \<noteq> PInf \<and> (fround binary64 s = NInf \<or> rval (fround binary64 s) \<le> 2 ^ 32)"
    using fround_le[OF repr64_consts(2)] by blast
  have le1: "s \<le> - 1 \<Longrightarrow> fround binary64 s \<noteq> PInf \<and> (fround binary64 s = NInf \<or> rval (fround binary64 s) \<le> - 1)"
    using fround_le[OF repr64_consts(1)] by blast
  have ge32: "2 ^ 32 \<le> s \<Longrightarrow> fround binary64 s \<noteq> NInf \<and> (fround binary64 s = PInf \<or> 2 ^ 32 \<le> rval (fround binary64 s))"
    using fround_ge[OF repr64_consts(2)] by blast
  have u: "to_uint32 (Fin y) = (if 0 \<le> trunc_zero y \<and> trunc_zero y \<le> 2 ^ 32 - 1
      then Inr (word_of_int (trunc_zero y)) else Inl UndefinedConversion)" for y
    by (simp add: to_uint32_def)
  show ?thesis
  proof (cases "- 1 < s \<and> s < 2 ^ 32")
    case True
    then have tz: "trunc_zero (rnd binary64 s) = trunc_zero s"
      unfolding s_def using m by (intro half_add_trunc) simp_all
    have t0: "0 \<le> trunc_zero s" unfolding trunc_zero_def using True by (auto simp: le_ceiling_iff)
    have "\<lfloor>s\<rfloor> < 2 ^ 32" using True by (simp add: floor_less_iff)
    then have t1: "trunc_zero s \<le> 2 ^ 32 - 1" unfolding trunc_zero_def using True
      by (auto simp: ceiling_le_iff)
    have "to_uint32 (fround binary64 s) = Inr (word_of_int (trunc_zero s))"
      using p
    proof (cases rule: fround_cases[where F = binary64 and x = s])
      case pinf
      then show ?thesis using le True by simp
    next
      case ninf
      then show ?thesis using ge True by simp
    next
      case mzero
      then have "trunc_zero s = 0" using True by (intro trunc_zero_small) simp_all
      then show ?thesis using mzero by (simp add: to_uint32_def)
    next
      case fin
      then show ?thesis using tz t0 t1 by (simp add: u)
    qed
    then show ?thesis using True unfolding f s_def by simp
  next
    case False
    have "to_uint32 (fround binary64 s) = Inl UndefinedConversion"
    proof (cases "s \<le> - 1")
      case True
      show ?thesis
      proof (cases "fround binary64 s")
        case (Fin y)
        then have "y \<le> of_int (- 1)" using le1[OF True] by simp
        then have "trunc_zero y \<le> - 1" by (rule trunc_zero_le) simp
        then show ?thesis using Fin by (simp add: u)
      next
        case MZero
        then show ?thesis using le1[OF True] by simp
      qed (simp_all add: to_uint32_def)
    next
      case F2: False
      then have ge': "2 ^ 32 \<le> s" using False by simp
      show ?thesis
      proof (cases "fround binary64 s")
        case (Fin y)
        then have "of_int (2 ^ 32) \<le> y" using ge32[OF ge'] by simp
        then have "2 ^ 32 \<le> trunc_zero y" by (rule trunc_zero_ge) simp
        then show ?thesis using Fin by (simp add: u)
      next
        case MZero
        then show ?thesis using ge32[OF ge'] by simp
      qed (simp_all add: to_uint32_def)
    qed
    then show ?thesis using False unfolding f s_def by simp
  qed
qed


lemma fround_Fin_repr: "0 < fprec F \<Longrightarrow> fround F x = Fin y \<Longrightarrow> repr F y"
  by (cases rule: fround_cases[where F = F and x = x]) simp_all

lemma fround_between:
  assumes lo: "repr F lo" "lo \<le> x" and hi: "repr F hi" "x \<le> hi" and p: "0 < fprec F"
    and nz: "0 < lo \<or> hi < 0 \<or> 0 \<le> x"
  shows "\<exists>y. fround F x = Fin y \<and> lo \<le> y \<and> y \<le> hi \<and> repr F y"
proof -
  note g = fround_ge[OF lo] and l = fround_le[OF hi]
  show ?thesis
  proof (cases "fround F x")
    case (Fin y)
    then show ?thesis using g l fround_Fin_repr[OF p Fin] by simp
  next
    case MZero
    then have "x < 0" by (auto simp: fround_def Let_def split: if_splits)
    then show ?thesis using MZero g l nz by auto
  next
    case PInf
    then show ?thesis using l by simp
  next
    case NInf
    then show ?thesis using g by simp
  next
    case NaN
    then show ?thesis by simp
  qed
qed

lemma repr32_consts:
  "repr binary32 1" "repr binary32 (- 1)" "repr binary32 (2 ^ 32)" "repr binary32 (2 ^ 63)"
  "repr binary32 (- (2 ^ 63))" "repr binary32 (1 / 2 ^ 32)" "repr binary32 (- (1 / 2 ^ 32))"
  using repr32_int[of 1] repr32_int[of "- 1"] repr_scaled[of 1 binary32 32]
    repr_scaled[of 1 binary32 63] repr_scaled[of "- 1" binary32 63]
    repr32_frac[of 1 32] repr32_frac[of "- 1" 32]
  by simp_all

lemma count_finite:
  assumes "c \<noteq> (0 :: 32 word)"
  shows "\<exists>b. of_integer binary32 (uint c) = Fin b \<and> 1 \<le> b \<and> b \<le> 2 ^ 32"
proof -
  have "uint c \<noteq> 0" using assms by (simp add: uint_0_iff)
  then have "1 \<le> uint c" using uint_ge_0[of c] by linarith
  then have 1: "1 \<le> real_of_int (uint c)" by linarith
  have "uint c < 2 ^ 32" using uint_lt2p[of c] by simp
  then have "real_of_int (uint c) < real_of_int (2 ^ 32)" by (simp only: of_int_less_iff)
  then have 2: "real_of_int (uint c) \<le> 2 ^ 32" by simp
  show ?thesis
    unfolding of_integer_def
    using fround_between[OF repr32_consts(1) 1 repr32_consts(3) 2] by auto
qed

lemma value_finite:
  fixes v :: "64 word"
  shows "\<exists>a. of_integer binary32 (sint v) = Fin a \<and> \<bar>a\<bar> \<le> 2 ^ 63
           \<and> (sint v = 0 \<longrightarrow> a = 0) \<and> (0 < sint v \<longrightarrow> 1 \<le> a) \<and> (sint v < 0 \<longrightarrow> a \<le> - 1)"
proof -
  have "- (2 ^ 63) \<le> sint v" "sint v < 2 ^ 63" using sint_ge[of v] sint_lt[of v] by simp_all
  then have "real_of_int (- (2 ^ 63)) \<le> real_of_int (sint v)"
    "real_of_int (sint v) \<le> real_of_int (2 ^ 63)" by (simp_all only: of_int_le_iff)
  then have b: "- (2 ^ 63) \<le> real_of_int (sint v)" "real_of_int (sint v) \<le> 2 ^ 63" by simp_all
  consider "sint v = 0" | "0 < sint v" | "sint v < 0" by linarith
  then show ?thesis
  proof cases
    case 1
    then show ?thesis by (simp add: of_integer_def)
  next
    case 2
    then have "1 \<le> real_of_int (sint v)" by linarith
    from fround_between[OF repr32_consts(1) this repr32_consts(4) b(2)] 2
    show ?thesis unfolding of_integer_def by auto
  next
    case 3
    then have "real_of_int (sint v) \<le> - 1" by linarith
    from fround_between[OF repr32_consts(5) b(1) repr32_consts(2) this] 3
    show ?thesis unfolding of_integer_def by auto
  qed
qed

lemma mean_finite:
  assumes "c \<noteq> 0"
  shows "\<exists>m. mean v c = Fin m \<and> repr binary32 m"
proof -
  obtain b where b: "of_integer binary32 (uint c) = Fin b" "1 \<le> b" "b \<le> 2 ^ 32"
    using count_finite[OF assms] by blast
  obtain a where a: "of_integer binary32 (sint v) = Fin a" "\<bar>a\<bar> \<le> 2 ^ 63"
    "sint v = 0 \<longrightarrow> a = 0" "0 < sint v \<longrightarrow> 1 \<le> a" "sint v < 0 \<longrightarrow> a \<le> - 1"
    using value_finite[of v] by blast
  have bpos: "0 < b" using b(2) by simp
  have ub: "\<bar>a / b\<bar> \<le> 2 ^ 63"
  proof -
    have "\<bar>a\<bar> / b \<le> \<bar>a\<bar> / 1" using b(2) by (intro divide_left_mono) simp_all
    then show ?thesis using a(2) bpos by simp
  qed
  consider "a = 0" | "1 \<le> a" | "a \<le> - 1" using a(3,4,5) by linarith
  then show ?thesis
  proof cases
    case 1
    then show ?thesis using b bpos a(1) by (simp add: mean_def fdiv_def fzero_def)
  next
    case 2
    have "1 / 2 ^ 32 \<le> 1 / b" using b(3) bpos by (intro divide_left_mono) simp_all
    also have "1 / b \<le> a / b" using 2 bpos by (intro divide_right_mono) simp_all
    finally have lo: "1 / 2 ^ 32 \<le> a / b" .
    have hi: "a / b \<le> 2 ^ 63" using ub by linarith
    from fround_between[OF repr32_consts(6) lo repr32_consts(4) hi]
    obtain y where "fround binary32 (a / b) = Fin y" "repr binary32 y" by auto
    then show ?thesis using 2 bpos a(1) b(1) by (simp add: mean_def fdiv_def)
  next
    case 3
    have "1 / 2 ^ 32 \<le> 1 / b" using b(3) bpos by (intro divide_left_mono) simp_all
    also have "1 / b \<le> (- a) / b" using 3 bpos by (intro divide_right_mono) simp_all
    finally have "1 / 2 ^ 32 \<le> - (a / b)" by simp
    then have hi: "a / b \<le> - (1 / 2 ^ 32)" by linarith
    have lo: "- (2 ^ 63) \<le> a / b" using ub by linarith
    from fround_between[OF repr32_consts(5) lo repr32_consts(7) hi]
    obtain y where "fround binary32 (a / b) = Fin y" "repr binary32 y" by auto
    then show ?thesis using 3 bpos a(1) b(1) by (simp add: mean_def fdiv_def)
  qed
qed

lemma offset_value:
  assumes m: "repr binary32 m" and lo: "- 1 < m + 1 / 2"
  shows "fsub binary32 (Fin m) (of_integer binary32 (trunc_zero (m + 1 / 2)))
           = Fin (m - of_int (trunc_zero (m + 1 / 2)))"
proof -
  define t where "t = trunc_zero (m + 1 / 2)"
  have r: "repr binary32 (of_int t)" "repr binary32 (m - of_int t)"
    using offset_exact[OF m lo] unfolding t_def by simp_all
  have o: "of_integer binary32 t = Fin (of_int t)"
    unfolding of_integer_def using r(1) by (rule fround_exact)
  have "fadd binary32 (Fin m) (fneg (Fin (of_int t))) = Fin (m - of_int t)"
  proof (cases "t = 0")
    case True
    then show ?thesis using fround_exact[OF m] by (simp add: fadd_def)
  next
    case False
    then show ?thesis using fround_exact[OF r(2)] by (simp add: fadd_def)
  qed
  then show ?thesis unfolding fsub_def t_def[symmetric] o .
qed


section \<open>The invalid state\<close>

lemma fatal_Reset: "StatusIsFatal g \<Longrightarrow> Reset g = Inr g"
  by (simp add: Reset_def)

lemma fatal_SetDeadband: "StatusIsFatal g \<Longrightarrow> SetDeadband volts g = Inr g"
  by (simp add: SetDeadband_def)

lemma fatal_InitGyro: "StatusIsFatal g \<Longrightarrow> InitGyro K hw g = Inr g"
  by (simp add: InitGyro_def)

lemma fatal_Calibrate: "StatusIsFatal g \<Longrightarrow> Calibrate K hw g = Inr g"
  by (simp add: Calibrate_def)

lemma fatal_GetAngle: "StatusIsFatal g \<Longrightarrow> GetAngle g = Inr (Fin 0)"
  by (simp add: GetAngle_def)

lemma fatal_GetRate: "StatusIsFatal g \<Longrightarrow> GetRate g = Inr (Fin 0)"
  by (simp add: GetRate_def)

lemma fresh_not_fatal [simp]: "\<not> StatusIsFatal (fresh mem channel)"
  by (simp add: fresh_def StatusIsFatal_def)

lemma fresh_analog [simp]: "m_analog (fresh mem channel) = channel"
  by (simp add: fresh_def)

lemma InitGyro_rejects:
  assumes "\<not> StatusIsFatal g" and "m_analog g = Some a" and "\<not> accumulatorChannel a"
  shows "InitGyro K hw g = Inr (g\<lparr>m_analog := None, m_error := Some ParameterOutOfRange\<rparr>)"
  using assms by (simp add: InitGyro_def)

lemma shared_rejects:
  assumes "\<not> accumulatorChannel a"
  shows "AnalogGyro_shared K hw mem (Some a) =
           Inr ((fresh mem (Some a))\<lparr>m_analog := None, m_error := Some ParameterOutOfRange\<rparr>)"
proof -
  have "InitGyro K hw (fresh mem (Some a))
          = Inr ((fresh mem (Some a))\<lparr>m_analog := None, m_error := Some ParameterOutOfRange\<rparr>)"
    using assms by (intro InitGyro_rejects) simp_all
  then show ?thesis
    by (simp add: AnalogGyro_shared_def Calibrate_def StatusIsFatal_def)
qed

text \<open>
  C5. In the invalid state GetAngle returns the \<^verbatim>\<open>float\<close> zero, GetRate returns the
  \<^verbatim>\<open>double\<close> zero and Reset leaves the object as it is; each of them returns (none ends
  in a fault). Both constructors that take a channel reference leave the object in that
  state when the reference is null.
\<close>

theorem invalid_state_fails_closed:
  "(StatusIsFatal g \<longrightarrow> GetAngle g = Inr (Fin 0) \<and> GetRate g = Inr (Fin 0) \<and> Reset g = Inr g)
   \<and> AnalogGyro_shared K hw mem None = Inr ((fresh mem None)\<lparr>m_error := Some NullParameter\<rparr>)
   \<and> AnalogGyro_shared_preset K hw mem None center offset
        = Inr ((fresh mem None)\<lparr>m_error := Some NullParameter\<rparr>)
   \<and> StatusIsFatal ((fresh mem None)\<lparr>m_error := Some NullParameter\<rparr>)"
  by (simp add: fatal_GetAngle fatal_GetRate fatal_Reset AnalogGyro_shared_def
      AnalogGyro_shared_preset_def StatusIsFatal_def)

theorem invalid_state_fails_closed_witness:
  "AnalogGyro_shared example_consts example_hw example_mem None
     = Inr ((fresh example_mem None)\<lparr>m_error := Some NullParameter\<rparr>)
   \<and> StatusIsFatal ((fresh example_mem None)\<lparr>m_error := Some NullParameter\<rparr>)
   \<and> GetAngle ((fresh example_mem None)\<lparr>m_error := Some NullParameter\<rparr>) = Inr (Fin 0)
   \<and> GetRate ((fresh example_mem None)\<lparr>m_error := Some NullParameter\<rparr>) = Inr (Fin 0)
   \<and> Reset ((fresh example_mem None)\<lparr>m_error := Some NullParameter\<rparr>)
       = Inr ((fresh example_mem None)\<lparr>m_error := Some NullParameter\<rparr>)"
  using invalid_state_fails_closed
    [of "(fresh example_mem None)\<lparr>m_error := Some NullParameter\<rparr>"
        example_consts example_hw example_mem 0 "Fin 0"]
  by simp

text \<open>
  C9, as the code has it. Once the status is fatal, Reset, SetDeadband, InitGyro and
  Calibrate do nothing and GetAngle and GetRate return zero. SetSensitivity, GetOffset
  and GetCenter do not look at the status: SetSensitivity stores its argument, and
  GetOffset and GetCenter return the stored members, whatever they hold; the status
  stays fatal. InitGyro on a channel that cannot accumulate sets the
  parameter-out-of-range error and clears the channel reference.
\<close>

theorem invalid_state_operations:
  "(StatusIsFatal g \<longrightarrow>
      Reset g = Inr g \<and> SetDeadband volts g = Inr g \<and> InitGyro K hw g = Inr g
      \<and> Calibrate K hw g = Inr g \<and> GetAngle g = Inr (Fin 0) \<and> GetRate g = Inr (Fin 0)
      \<and> SetSensitivity v g = g\<lparr>m_voltsPerDegreePerSecond := v\<rparr>
      \<and> StatusIsFatal (SetSensitivity v g)
      \<and> GetOffset g = m_offset g \<and> GetCenter g = m_center g)
   \<and> (\<not> StatusIsFatal g \<and> m_analog g = Some a \<and> \<not> accumulatorChannel a \<longrightarrow>
        InitGyro K hw g = Inr (g\<lparr>m_analog := None, m_error := Some ParameterOutOfRange\<rparr>)
        \<and> StatusIsFatal (g\<lparr>m_analog := None, m_error := Some ParameterOutOfRange\<rparr>))"
proof -
  have "\<not> StatusIsFatal g \<and> m_analog g = Some a \<and> \<not> accumulatorChannel a \<longrightarrow>
        InitGyro K hw g = Inr (g\<lparr>m_analog := None, m_error := Some ParameterOutOfRange\<rparr>)"
    using InitGyro_rejects[of g a K hw] by blast
  then show ?thesis
    by (simp add: fatal_Reset fatal_SetDeadband fatal_InitGyro fatal_Calibrate fatal_GetAngle
        fatal_GetRate SetSensitivity_def GetOffset_def GetCenter_def StatusIsFatal_def)
qed

theorem invalid_state_operations_witness:
  "AnalogGyro_shared example_consts example_hw example_mem
       (Some (example_input\<lparr>accumulatorChannel := False\<rparr>))
     = Inr (example_mem\<lparr>m_error := Some ParameterOutOfRange\<rparr>)
   \<and> StatusIsFatal (example_mem\<lparr>m_error := Some ParameterOutOfRange\<rparr>)
   \<and> Reset (example_mem\<lparr>m_error := Some ParameterOutOfRange\<rparr>)
       = Inr (example_mem\<lparr>m_error := Some ParameterOutOfRange\<rparr>)
   \<and> GetAngle (example_mem\<lparr>m_error := Some ParameterOutOfRange\<rparr>) = Inr (Fin 0)
   \<and> SetSensitivity (Fin 2) (example_mem\<lparr>m_error := Some ParameterOutOfRange\<rparr>)
       = example_mem\<lparr>m_error := Some ParameterOutOfRange, m_voltsPerDegreePerSecond := Fin 2\<rparr>
   \<and> GetOffset (example_mem\<lparr>m_error := Some ParameterOutOfRange\<rparr>) = Fin (1 / 4)
   \<and> GetCenter (example_mem\<lparr>m_error := Some ParameterOutOfRange\<rparr>) = 7"
  using invalid_state_operations
    [of "example_mem\<lparr>m_error := Some ParameterOutOfRange\<rparr>" "Fin 0" example_consts example_hw
        "Fin 2" "example_input\<lparr>accumulatorChannel := False\<rparr>"]
    shared_rejects [of "example_input\<lparr>accumulatorChannel := False\<rparr>" example_consts example_hw
        example_mem]
  by (simp add: example_input_def example_mem_def fresh_def StatusIsFatal_def)

text \<open>
  The claim C9 as the spec has it fails on the object that the constructor leaves
  behind after InitGyro has rejected a channel that cannot accumulate: the status is
  fatal, yet SetSensitivity changes the object, and GetOffset and GetCenter return what
  the storage held, here 0.25 and 7.
\<close>

theorem invalid_state_operations_counterexample:
  "AnalogGyro_shared example_consts example_hw example_mem
       (Some (example_input\<lparr>accumulatorChannel := False\<rparr>))
     = Inr (example_mem\<lparr>m_error := Some ParameterOutOfRange\<rparr>)
   \<and> StatusIsFatal (example_mem\<lparr>m_error := Some ParameterOutOfRange\<rparr>)
   \<and> SetSensitivity (Fin 2) (example_mem\<lparr>m_error := Some ParameterOutOfRange\<rparr>)
       \<noteq> example_mem\<lparr>m_error := Some ParameterOutOfRange\<rparr>
   \<and> GetOffset (example_mem\<lparr>m_error := Some ParameterOutOfRange\<rparr>) \<noteq> Fin 0
   \<and> GetCenter (example_mem\<lparr>m_error := Some ParameterOutOfRange\<rparr>) \<noteq> 0"
  using shared_rejects [of "example_input\<lparr>accumulatorChannel := False\<rparr>" example_consts
      example_hw example_mem]
  by (simp add: example_input_def example_mem_def fresh_def StatusIsFatal_def
      SetSensitivity_def GetOffset_def GetCenter_def)

section \<open>The constructors with a preset center and offset\<close>

text \<open>
  C10. When the channel cannot accumulate, InitGyro sets the error and clears the
  channel reference, and both constructors with a preset center and offset go on: they
  store the center and the offset and call SetAccumulatorCenter through the cleared
  reference, which is a null dereference.
\<close>

theorem preset_constructors_null_dereference:
  "\<not> accumulatorChannel a \<Longrightarrow>
     InitGyro K hw (fresh mem (Some a))
       = Inr ((fresh mem (Some a))\<lparr>m_analog := None, m_error := Some ParameterOutOfRange\<rparr>)
     \<and> preset center offset
         ((fresh mem (Some a))\<lparr>m_analog := None, m_error := Some ParameterOutOfRange\<rparr>)
       = Inl NullDereference
     \<and> AnalogGyro_shared_preset K hw mem (Some a) center offset = Inl NullDereference
     \<and> (new_input channel = a \<longrightarrow>
          AnalogGyro_channel_preset K hw mem new_input channel center offset = Inl NullDereference)"
proof -
  assume "\<not> accumulatorChannel a"
  then have "InitGyro K hw (fresh mem (Some a))
          = Inr ((fresh mem (Some a))\<lparr>m_analog := None, m_error := Some ParameterOutOfRange\<rparr>)"
    by (intro InitGyro_rejects) simp_all
  then show ?thesis
    by (simp add: AnalogGyro_shared_preset_def AnalogGyro_channel_preset_def preset_def)
qed

theorem preset_constructors_null_dereference_witness:
  "\<not> accumulatorChannel (example_input\<lparr>accumulatorChannel := False\<rparr>)
   \<and> AnalogGyro_shared_preset example_consts example_hw example_mem
        (Some (example_input\<lparr>accumulatorChannel := False\<rparr>)) 100 (Fin (1 / 4)) = Inl NullDereference
   \<and> AnalogGyro_channel_preset example_consts example_hw example_mem
        (\<lambda>c. example_input\<lparr>accumulatorChannel := False, channelId := c\<rparr>) 5 100 (Fin (1 / 4))
       = Inl NullDereference"
  using preset_constructors_null_dereference
    [of "example_input\<lparr>accumulatorChannel := False\<rparr>" example_consts example_hw example_mem
        100 "Fin (1 / 4)" "\<lambda>c. example_input\<lparr>accumulatorChannel := False\<rparr>" 0]
    preset_constructors_null_dereference
    [of "example_input\<lparr>accumulatorChannel := False, channelId := 5\<rparr>" example_consts example_hw
        example_mem 100 "Fin (1 / 4)"
        "\<lambda>c. example_input\<lparr>accumulatorChannel := False, channelId := c\<rparr>" 5]
  by simp

lemma preset_accepts:
  assumes "accumulatorChannel a" "unat (kAverageBits K + kOversampleBits K) < 32"
    "unat (kOversampleBits K) < 32" "lsbWeight a \<noteq> NaN" "\<not> is_zero (lsbWeight a)"
  shows "AnalogGyro_shared_preset K hw mem (Some a) center offset =
    Inr ((fresh mem (Some a))\<lparr>m_analog := Some (ResetAccumulator ((sample hw lit_tenth
              (a\<lparr>averageBits := kAverageBits K, oversampleBits := kOversampleBits K,
                 sampleRate := fmul binary32 (kSamplesPerSecond K)
                   (of_integer binary32
                      (sint (push_bit (unat (kAverageBits K + kOversampleBits K)) (1 :: 32 word))))\<rparr>))
              \<lparr>accumulatorDeadband := 0, accumulatorCenter := center\<rparr>)),
           m_voltsPerDegreePerSecond := kDefaultVoltsPerDegreePerSecond K,
           m_pidSource := kDisplacement,
           events := [WaitEv lit_tenth, HALReportGyro (channelId a), LiveWindowAddSensor (channelId a)],
           m_center := center, m_offset := offset\<rparr>)"
proof -
  have "InitGyro K hw (fresh mem (Some a)) = Inr ((fresh mem (Some a))\<lparr>m_analog := Some ((sample hw lit_tenth
              (a\<lparr>averageBits := kAverageBits K, oversampleBits := kOversampleBits K,
                 sampleRate := fmul binary32 (kSamplesPerSecond K)
                   (of_integer binary32
                      (sint (push_bit (unat (kAverageBits K + kOversampleBits K)) (1 :: 32 word))))\<rparr>))
              \<lparr>accumulatorDeadband := 0\<rparr>),
           m_voltsPerDegreePerSecond := kDefaultVoltsPerDegreePerSecond K,
           m_pidSource := kDisplacement,
           events := events (fresh mem (Some a)) @ [WaitEv lit_tenth, HALReportGyro (channelId a),
                                 LiveWindowAddSensor (channelId a)]\<rparr>)"
    using assms by (intro InitGyro_accepts) simp_all
  then show ?thesis
    by (simp add: AnalogGyro_shared_preset_def preset_def fresh_def)
qed

lemma channel_preset_shared:
  "AnalogGyro_channel_preset K hw mem new_input channel center offset
     = AnalogGyro_shared_preset K hw mem (Some (new_input channel)) center offset"
  by (simp add: AnalogGyro_channel_preset_def AnalogGyro_shared_preset_def)

text \<open>
  C8, as the code has it. On a channel that can accumulate, a constructor with a preset
  center and offset runs InitGyro and no calibration: the object is valid, GetCenter and
  GetOffset return the preset values, the accumulator's center register holds the
  preset center, and the construction waits once, the settling delay of 0.1 s in
  InitGyro. (InitGyro returns when the shifts by the configured bit counts are defined
  and the LSB weight is neither zero nor a NaN, so that SetDeadband(0) converts a zero.)
\<close>

theorem preset_constructor_bypasses_calibration:
  assumes "accumulatorChannel a" "unat (kAverageBits K + kOversampleBits K) < 32"
    "unat (kOversampleBits K) < 32" "lsbWeight a \<noteq> NaN" "\<not> is_zero (lsbWeight a)"
  shows "\<exists>g. AnalogGyro_shared_preset K hw mem (Some a) center offset = Inr g
           \<and> (new_input channel = a \<longrightarrow>
                AnalogGyro_channel_preset K hw mem new_input channel center offset = Inr g)
           \<and> \<not> StatusIsFatal g \<and> GetCenter g = center \<and> GetOffset g = offset
           \<and> map_option accumulatorCenter (m_analog g) = Some center
           \<and> events g = [WaitEv lit_tenth, HALReportGyro (channelId a),
                          LiveWindowAddSensor (channelId a)]"
proof -
  note r = preset_accepts[OF assms, of hw mem center offset]
  show ?thesis
    by (auto simp: channel_preset_shared r StatusIsFatal_def GetCenter_def GetOffset_def fresh_def
        ResetAccumulator_def)
qed

theorem preset_constructor_bypasses_calibration_witness:
  "map_sum id GetCenter
     (AnalogGyro_shared_preset example_consts example_hw example_mem (Some example_input) 100 (Fin (1 / 4)))
     = Inr 100
   \<and> map_sum id GetOffset
     (AnalogGyro_shared_preset example_consts example_hw example_mem (Some example_input) 100 (Fin (1 / 4)))
     = Inr (Fin (1 / 4))
   \<and> map_sum id events
     (AnalogGyro_shared_preset example_consts example_hw example_mem (Some example_input) 100 (Fin (1 / 4)))
     = Inr [WaitEv lit_tenth, HALReportGyro 0, LiveWindowAddSensor 0]"
proof -
  have h: "accumulatorChannel example_input"
    "unat (kAverageBits example_consts + kOversampleBits example_consts) < 32"
    "unat (kOversampleBits example_consts) < 32"
    "lsbWeight example_input \<noteq> NaN" "\<not> is_zero (lsbWeight example_input)"
    by (simp_all add: example_input_def example_consts_def)
  from preset_constructor_bypasses_calibration
    [OF h, of example_hw example_mem 100 "Fin (1 / 4)" "\<lambda>c. example_input" 0]
  obtain g where g: "AnalogGyro_shared_preset example_consts example_hw example_mem
        (Some example_input) 100 (Fin (1 / 4)) = Inr g"
    "GetCenter g = 100" "GetOffset g = Fin (1 / 4)"
    "events g = [WaitEv lit_tenth, HALReportGyro (channelId example_input),
                 LiveWindowAddSensor (channelId example_input)]"
    by blast
  have "channelId example_input = 0" by (simp add: example_input_def)
  with g show ?thesis by simp
qed

text \<open>
  The claim C8 as the spec has it says that the construction performs no wait of any
  kind. On the example channel the construction with center 100 and offset 0.25 waits
  0.1 s in InitGyro.
\<close>

theorem preset_constructor_waits_counterexample:
  "map_sum id events
     (AnalogGyro_shared_preset example_consts example_hw example_mem (Some example_input) 100 (Fin (1 / 4)))
     = Inr [WaitEv lit_tenth, HALReportGyro 0, LiveWindowAddSensor 0]"
proof -
  have h: "accumulatorChannel example_input"
    "unat (kAverageBits example_consts + kOversampleBits example_consts) < 32"
    "unat (kOversampleBits example_consts) < 32"
    "lsbWeight example_input \<noteq> NaN" "\<not> is_zero (lsbWeight example_input)"
    by (simp_all add: example_input_def example_consts_def)
  have "channelId example_input = 0" by (simp add: example_input_def)
  then show ?thesis unfolding preset_accepts[OF h] by simp
qed


section \<open>Calibration\<close>

subsection \<open>A sample count of zero\<close>

lemma mean_zero_count: "mean v 0 = NaN \<or> mean v 0 = PInf \<or> mean v 0 = NInf"
proof -
  have "fdiv binary32 A (Fin 0) = NaN \<or> fdiv binary32 A (Fin 0) = PInf \<or> fdiv binary32 A (Fin 0) = NInf" for A
    by (cases A) (simp_all add: fdiv_def finf_def Let_def)
  then show ?thesis by (simp add: mean_def of_integer_def)
qed

lemma to_uint32_special: "m = NaN \<or> m = PInf \<or> m = NInf \<Longrightarrow> to_uint32 (fadd binary64 m lit_half) = Inl UndefinedConversion"
  by (auto simp: lit_half_eq fadd_def to_uint32_def)

text \<open>
  C2 fails on the code: Calibrate has no guard for a sample count of zero. It divides by
  the count, the quotient is a NaN or an infinity, and the conversion of the quotient
  plus 0.5 to the unsigned center is undefined; no error status is set.
\<close>

theorem calibrate_zero_count_undefined:
  assumes "\<not> StatusIsFatal g" "m_analog g = Some a"
    "hw (kCalibrationSampleTime K) (InitAccumulator a) = (v, 0, avg)"
  shows "(mean v 0 = NaN \<or> mean v 0 = PInf \<or> mean v 0 = NInf)
         \<and> Calibrate K hw g = Inl UndefinedConversion"
  using assms mean_zero_count[of v] to_uint32_special[OF mean_zero_count[of v]]
  by (simp add: Calibrate_def Wait_def sample_def Let_def)

theorem calibrate_zero_count_undefined_witness:
  "mean 0 0 = NaN \<and> Calibrate example_consts example_hw_idle example_gyro = Inl UndefinedConversion"
proof -
  have h: "\<not> StatusIsFatal example_gyro" "m_analog example_gyro = Some example_input"
    "example_hw_idle (kCalibrationSampleTime example_consts) (InitAccumulator example_input) = (0, 0, Fin 0)"
    by (simp_all add: example_gyro_def StatusIsFatal_def example_hw_idle_def)
  have "mean 0 0 = NaN" by (simp add: mean_def of_integer_def fdiv_def)
  with h calibrate_zero_count_undefined
    [of example_gyro example_input example_hw_idle example_consts 0 "Fin 0"]
  show ?thesis by simp
qed


subsection \<open>The center and the offset\<close>

lemma trunc_half_range:
  assumes "- 1 < s" "s < 2 ^ 32"
  shows "0 \<le> trunc_zero s \<and> trunc_zero s < 2 ^ 32"
proof -
  have "\<lfloor>s\<rfloor> < 2 ^ 32" using assms by (simp add: floor_less_iff)
  then show ?thesis unfolding trunc_zero_def using assms by (auto simp: le_ceiling_iff ceiling_less_iff)
qed

lemma uint_center:
  assumes "0 \<le> t" "t < 2 ^ 32"
  shows "uint (word_of_int t :: 32 word) = t"
  using assms by (simp add: uint_word_of_int take_bit_int_eq_self)

lemma Calibrate_unfold:
  assumes "\<not> StatusIsFatal g" and "m_analog g = Some a0"
    and "hw (kCalibrationSampleTime K) (InitAccumulator a0) = (v, c, avg)"
  shows "Calibrate K hw g =
    (case to_uint32 (fadd binary64 (mean v c) lit_half) of
       Inl e \<Rightarrow> Inl e
     | Inr w \<Rightarrow> Inr (g\<lparr>m_center := w,
          m_offset := fsub binary32 (mean v c) (of_integer binary32 (uint w)),
          m_analog := Some ((InitAccumulator a0)\<lparr>averageValue := avg, accumulatorValue := 0,
                             accumulatorCount := 0, accumulatorCenter := w\<rparr>),
          events := events g @ [WaitEv (kCalibrationSampleTime K)]\<rparr>))"
  using assms
  by (simp add: Calibrate_def Wait_def sample_def Let_def ResetAccumulator_def split: sum.splits)

lemma Calibrate_result:
  assumes "\<not> StatusIsFatal g" and "m_analog g = Some a0"
    and "hw (kCalibrationSampleTime K) (InitAccumulator a0) = (v, c, avg)"
    and "c \<noteq> 0"
  shows "\<exists>m. mean v c = Fin m \<and> repr binary32 m \<and>
     (if - 1 < m + 1 / 2 \<and> m + 1 / 2 < 2 ^ 32
      then Calibrate K hw g
             = Inr (g\<lparr>m_center := word_of_int (trunc_zero (m + 1 / 2)),
                 m_offset := Fin (m - of_int (trunc_zero (m + 1 / 2))),
                 m_analog := Some ((InitAccumulator a0)\<lparr>averageValue := avg,
                    accumulatorValue := 0, accumulatorCount := 0,
                    accumulatorCenter := word_of_int (trunc_zero (m + 1 / 2))\<rparr>),
                 events := events g @ [WaitEv (kCalibrationSampleTime K)]\<rparr>)
           \<and> uint (word_of_int (trunc_zero (m + 1 / 2)) :: 32 word) = trunc_zero (m + 1 / 2)
      else Calibrate K hw g = Inl UndefinedConversion)"
proof -
  obtain m where m: "mean v c = Fin m" "repr binary32 m"
    using mean_finite[OF assms(4)] by blast
  have u: "Calibrate K hw g =
    (case to_uint32 (fadd binary64 (mean v c) lit_half) of
       Inl e \<Rightarrow> Inl e
     | Inr w \<Rightarrow> Inr (g\<lparr>m_center := w,
          m_offset := fsub binary32 (mean v c) (of_integer binary32 (uint w)),
          m_analog := Some ((InitAccumulator a0)\<lparr>averageValue := avg, accumulatorValue := 0,
                             accumulatorCount := 0, accumulatorCenter := w\<rparr>),
          events := events g @ [WaitEv (kCalibrationSampleTime K)]\<rparr>))"
    using assms(1-3) by (rule Calibrate_unfold)
  note cc = center_conversion[OF m(2)]
  show ?thesis
  proof (cases "- 1 < m + 1 / 2 \<and> m + 1 / 2 < 2 ^ 32")
    case True
    define t where "t = trunc_zero (m + 1 / 2)"
    have tr: "0 \<le> t" "t < 2 ^ 32" using trunc_half_range[of "m + 1 / 2"] True unfolding t_def by simp_all
    have ut: "uint (word_of_int t :: 32 word) = t" using tr by (rule uint_center)
    have off: "fsub binary32 (Fin m) (of_integer binary32 t) = Fin (m - of_int t)"
      unfolding t_def using m(2) True by (intro offset_value) simp_all
    have "Calibrate K hw g
             = Inr (g\<lparr>m_center := word_of_int t,
                 m_offset := Fin (m - of_int t),
                 m_analog := Some ((InitAccumulator a0)\<lparr>averageValue := avg,
                    accumulatorValue := 0, accumulatorCount := 0,
                    accumulatorCenter := word_of_int t\<rparr>),
                 events := events g @ [WaitEv (kCalibrationSampleTime K)]\<rparr>)"
    proof -
      have c1: "to_uint32 (fadd binary64 (Fin m) lit_half) = Inr (word_of_int t)"
        unfolding cc t_def using True by simp
      show ?thesis unfolding u m(1) c1 by (simp only: sum.case ut off)
    qed
    then show ?thesis using True m ut unfolding t_def by (intro exI[of _ m]) simp
  next
    case False
    have "Calibrate K hw g = Inl UndefinedConversion"
      unfolding u m(1) cc using False by simp
    then show ?thesis using False m by (intro exI[of _ m]) simp
  qed
qed


text \<open>
  C1. Calibrate on a valid object, with \<open>(v, c)\<close> the accumulator's value and count
  read back after the wait and \<open>c\<close> not zero. The mean \<open>m\<close>, the \<^verbatim>\<open>float\<close> quotient of
  \<open>v\<close> and \<open>c\<close>, is finite. Calibrate returns exactly when \<open>-1 < m + 0.5 < 2 ^ 32\<close>, and
  then the stored center is \<open>m + 0.5\<close> truncated (the sum taken exactly: the \<^verbatim>\<open>double\<close>
  addition of the code truncates to the same integer), and the stored offset is
  \<open>m - center\<close> exactly: the \<^verbatim>\<open>float\<close> subtraction of the code does not round. The center
  also goes to the accumulator's center register and the accumulator is reset.
  Outside that range the conversion to the unsigned center is undefined.
\<close>

theorem Calibrate_center_offset:
  assumes "\<not> StatusIsFatal g" and "m_analog g = Some a0"
    and "hw (kCalibrationSampleTime K) (InitAccumulator a0) = (v, c, avg)"
    and "c \<noteq> 0"
  shows "\<exists>m. mean v c = Fin m \<and>
     (if - 1 < m + 1 / 2 \<and> m + 1 / 2 < 2 ^ 32
      then Calibrate K hw g
             = Inr (g\<lparr>m_center := word_of_int (trunc_zero (m + 1 / 2)),
                 m_offset := Fin (m - of_int (trunc_zero (m + 1 / 2))),
                 m_analog := Some ((InitAccumulator a0)\<lparr>averageValue := avg,
                    accumulatorValue := 0, accumulatorCount := 0,
                    accumulatorCenter := word_of_int (trunc_zero (m + 1 / 2))\<rparr>),
                 events := events g @ [WaitEv (kCalibrationSampleTime K)]\<rparr>)
           \<and> uint (word_of_int (trunc_zero (m + 1 / 2)) :: 32 word) = trunc_zero (m + 1 / 2)
      else Calibrate K hw g = Inl UndefinedConversion)"
  using Calibrate_result[of g a0 hw K v c avg] assms by blast

lemma mean_examples:
  "mean 21 2 = Fin (21 / 2)"
  "mean 104999 10000 = Fin (11009943 / 1048576)"
proof -
  have i: "of_integer binary32 21 = Fin 21" "of_integer binary32 2 = Fin 2"
    "of_integer binary32 104999 = Fin 104999" "of_integer binary32 10000 = Fin 10000"
    unfolding of_integer_def
    using fround_exact[OF repr32_int[of 21]] fround_exact[OF repr32_int[of 2]]
      fround_exact[OF repr32_int[of 104999]] fround_exact[OF repr32_int[of 10000]]
    by simp_all
  have s: "sint (21 :: 64 word) = 21" "sint (104999 :: 64 word) = 104999"
    "uint (2 :: 32 word) = 2" "uint (10000 :: 32 word) = 10000"
    by simp_all
  show "mean 21 2 = Fin (21 / 2)"
    unfolding mean_def s i using fround_exact[OF repr32_frac[of 21 1]] by (simp add: fdiv_def)
  show "mean 104999 10000 = Fin (11009943 / 1048576)"
    unfolding mean_def s i using fround32_example by (simp add: fdiv_def)
qed

text \<open>The two examples of the spec: a mean of 10.5 gives the center 11 and the offset
  -0.5; the sum 104999 over 10000 samples has the \<^verbatim>\<open>float\<close> mean 11009943 / 2^20 (the
  \<^verbatim>\<open>float\<close> next to 10.4999) and gives the center 10 and the offset 524183 / 2^20.\<close>

theorem Calibrate_center_offset_witness:
  "mean 21 2 = Fin (21 / 2)
   \<and> Calibrate example_consts example_hw example_gyro
       = Inr (example_gyro\<lparr>m_center := 11, m_offset := Fin (- (1 / 2)),
                m_analog := Some (example_input\<lparr>averageValue := Fin (21 / 2), accumulatorCenter := 11\<rparr>),
                events := [WaitEv (Fin 5)]\<rparr>)
   \<and> mean 104999 10000 = Fin (11009943 / 1048576)
   \<and> Calibrate example_consts example_hw_fraction example_gyro
       = Inr (example_gyro\<lparr>m_center := 10, m_offset := Fin (524183 / 1048576),
                m_analog := Some (example_input\<lparr>averageValue := Fin (21 / 2), accumulatorCenter := 10\<rparr>),
                events := [WaitEv (Fin 5)]\<rparr>)"
proof -
  have h: "\<not> StatusIsFatal example_gyro" "m_analog example_gyro = Some example_input"
    "example_hw (kCalibrationSampleTime example_consts) (InitAccumulator example_input)
       = (21, 2, Fin (21 / 2))"
    "example_hw_fraction (kCalibrationSampleTime example_consts) (InitAccumulator example_input)
       = (104999, 10000, Fin (21 / 2))"
    "(2 :: 32 word) \<noteq> 0" "(10000 :: 32 word) \<noteq> 0"
    by (simp_all add: example_gyro_def StatusIsFatal_def example_hw_def example_hw_fraction_def)
  have e: "InitAccumulator example_input = example_input" "events example_gyro = []"
    "kCalibrationSampleTime example_consts = Fin 5"
    by (simp_all add: InitAccumulator_def example_input_def example_gyro_def example_consts_def)
  note T1 = Calibrate_center_offset
    [of example_gyro example_input example_hw example_consts 21 2 "Fin (21 / 2)",
     OF h(1) h(2) h(3) h(5)]
  then obtain m1 where m1: "mean 21 2 = Fin m1"
    and b1: "if - 1 < m1 + 1 / 2 \<and> m1 + 1 / 2 < 2 ^ 32
      then Calibrate example_consts example_hw example_gyro
             = Inr (example_gyro\<lparr>m_center := word_of_int (trunc_zero (m1 + 1 / 2)),
                 m_offset := Fin (m1 - of_int (trunc_zero (m1 + 1 / 2))),
                 m_analog := Some ((InitAccumulator example_input)\<lparr>averageValue := Fin (21 / 2),
                    accumulatorValue := 0, accumulatorCount := 0,
                    accumulatorCenter := word_of_int (trunc_zero (m1 + 1 / 2))\<rparr>),
                 events := events example_gyro @ [WaitEv (kCalibrationSampleTime example_consts)]\<rparr>)
           \<and> uint (word_of_int (trunc_zero (m1 + 1 / 2)) :: 32 word) = trunc_zero (m1 + 1 / 2)
      else Calibrate example_consts example_hw example_gyro = Inl UndefinedConversion"
    by blast
  have "m1 = 21 / 2" using m1 mean_examples(1) by simp
  with b1 have 1: "Calibrate example_consts example_hw example_gyro
       = Inr (example_gyro\<lparr>m_center := 11, m_offset := Fin (- (1 / 2)),
                m_analog := Some (example_input\<lparr>averageValue := Fin (21 / 2), accumulatorCenter := 11\<rparr>),
                events := [WaitEv (Fin 5)]\<rparr>)"
    by (simp add: trunc_zero_def e InitAccumulator_def example_input_def)
  note T2 = Calibrate_center_offset
    [of example_gyro example_input example_hw_fraction example_consts 104999 10000 "Fin (21 / 2)",
     OF h(1) h(2) h(4) h(6)]
  then obtain m2 where m2: "mean 104999 10000 = Fin m2"
    and b2: "if - 1 < m2 + 1 / 2 \<and> m2 + 1 / 2 < 2 ^ 32
      then Calibrate example_consts example_hw_fraction example_gyro
             = Inr (example_gyro\<lparr>m_center := word_of_int (trunc_zero (m2 + 1 / 2)),
                 m_offset := Fin (m2 - of_int (trunc_zero (m2 + 1 / 2))),
                 m_analog := Some ((InitAccumulator example_input)\<lparr>averageValue := Fin (21 / 2),
                    accumulatorValue := 0, accumulatorCount := 0,
                    accumulatorCenter := word_of_int (trunc_zero (m2 + 1 / 2))\<rparr>),
                 events := events example_gyro @ [WaitEv (kCalibrationSampleTime example_consts)]\<rparr>)
           \<and> uint (word_of_int (trunc_zero (m2 + 1 / 2)) :: 32 word) = trunc_zero (m2 + 1 / 2)
      else Calibrate example_consts example_hw_fraction example_gyro = Inl UndefinedConversion"
    by blast
  have "m2 = 11009943 / 1048576" using m2 mean_examples(2) by simp
  with b2 have 2: "Calibrate example_consts example_hw_fraction example_gyro
       = Inr (example_gyro\<lparr>m_center := 10, m_offset := Fin (524183 / 1048576),
                m_analog := Some (example_input\<lparr>averageValue := Fin (21 / 2), accumulatorCenter := 10\<rparr>),
                events := [WaitEv (Fin 5)]\<rparr>)"
    by (simp add: trunc_zero_def e InitAccumulator_def example_input_def)
  from 1 2 mean_examples show ?thesis by simp
qed


section \<open>The deadband\<close>

text \<open>
  C7, as the code has it. On a valid object SetDeadband computes
  \<open>volts * 1e9 / lsbWeight * 2 ^ oversampleBits\<close> in \<^verbatim>\<open>double\<close> arithmetic, and the
  threshold it passes to the Channel Adapter is that value truncated towards zero to a
  signed 32-bit integer. SetDeadband(0.5) with an LSB weight of 1000 and 2 oversample
  bits installs 2000000.
\<close>

theorem SetDeadband_counts:
  assumes "\<not> StatusIsFatal g" and "m_analog g = Some a" and "unat (oversampleBits a) < 31"
    and "fmul binary64 (fdiv binary64 (fmul binary64 volts (Fin (10 ^ 9))) (lsbWeight a))
           (Fin (2 ^ unat (oversampleBits a))) = Fin y"
    and "- (2 ^ 31) \<le> trunc_zero y" and "trunc_zero y < 2 ^ 31"
  shows "SetDeadband volts g
           = Inr (g\<lparr>m_analog := Some (a\<lparr>accumulatorDeadband := word_of_int (trunc_zero y)\<rparr>)\<rparr>)
         \<and> sint (word_of_int (trunc_zero y) :: 32 word) = trunc_zero y"
proof -
  have "of_integer binary64 (2 ^ unat (oversampleBits a)) = Fin (2 ^ unat (oversampleBits a))"
    using assms(3) by (intro of_integer64_pow2) simp
  then show ?thesis
    using assms by (simp add: SetDeadband_def shl1_pow lit_1e9_eq to_int32_def sint_word_of_int32)
qed

lemma deadband_example_steps:
  "fmul binary64 (Fin (1 / 2)) (Fin 1000000000) = Fin 500000000"
  "fdiv binary64 (Fin 500000000) (Fin 1000) = Fin 500000"
  "fmul binary64 (Fin 500000) (Fin 4) = Fin 2000000"
  "fdiv binary64 (Fin 500000000) (Fin 1024) = Fin (1953125 / 4)"
  "fmul binary64 (Fin (1953125 / 4)) (Fin 1) = Fin (1953125 / 4)"
  using fround_exact[OF repr64_int[of 500000000]] fround_exact[OF repr64_int[of 500000]]
    fround_exact[OF repr64_int[of 2000000]] fround_exact[OF repr64_frac[of 1953125 2]]
  by (simp_all add: fmul_def fdiv_def)

theorem SetDeadband_counts_witness:
  "SetDeadband (Fin (1 / 2)) example_gyro
     = Inr (example_gyro\<lparr>m_analog := Some (example_input\<lparr>accumulatorDeadband := 2000000\<rparr>)\<rparr>)
   \<and> sint (2000000 :: 32 word) = 2000000"
proof -
  have h: "\<not> StatusIsFatal example_gyro" "m_analog example_gyro = Some example_input"
    "unat (oversampleBits example_input) < 31"
    "fmul binary64 (fdiv binary64 (fmul binary64 (Fin (1 / 2)) (Fin (10 ^ 9))) (lsbWeight example_input))
           (Fin (2 ^ unat (oversampleBits example_input))) = Fin 2000000"
    "- (2 ^ 31) \<le> trunc_zero 2000000" "trunc_zero 2000000 < 2 ^ 31"
    by (simp_all add: example_gyro_def example_input_def StatusIsFatal_def deadband_example_steps
        trunc_zero_def)
  have t: "trunc_zero 2000000 = 2000000" by (simp add: trunc_zero_def)
  from SetDeadband_counts[OF h] show ?thesis unfolding t by simp
qed

text \<open>
  The claim C7 as the spec has it equates the threshold with the value of the formula.
  With an LSB weight of 1024 and no oversampling, SetDeadband(0.5) installs 488281,
  and the formula gives 488281.25.
\<close>

theorem SetDeadband_fraction_counterexample:
  "SetDeadband (Fin (1 / 2)) example_gyro_fine
     = Inr (example_gyro_fine\<lparr>m_analog :=
              Some (example_input\<lparr>oversampleBits := 0, lsbWeight := Fin 1024,
                                  accumulatorDeadband := 488281\<rparr>)\<rparr>)
   \<and> real_of_int (sint (488281 :: 32 word)) \<noteq> 1 / 2 * 10 ^ 9 / 1024 * 2 ^ 0"
proof -
  have t: "trunc_zero (1953125 / 4) = 488281" by (simp add: trunc_zero_def)
  have s: "shl1 0 = Inr 1" using shl1_pow[of 0] by simp
  have o: "of_integer binary64 1 = Fin 1" using of_integer64_pow2[of 0] by simp
  have "SetDeadband (Fin (1 / 2)) example_gyro_fine
     = Inr (example_gyro_fine\<lparr>m_analog :=
              Some (example_input\<lparr>oversampleBits := 0, lsbWeight := Fin 1024,
                                  accumulatorDeadband := 488281\<rparr>)\<rparr>)"
    using deadband_example_steps t
    by (simp add: SetDeadband_def example_gyro_fine_def example_gyro_def StatusIsFatal_def
        s o lit_1e9_eq to_int32_def)
  then show ?thesis by simp
qed


section \<open>Reset\<close>

lemma GetAngle_after_reset:
  assumes nf: "\<not> StatusIsFatal g" and a: "m_analog g = Some a"
    and cnt: "accumulatorValue a = 0" "accumulatorCount a = 0"
    and off: "m_offset g \<noteq> NaN" "\<not> isinf (m_offset g)"
    and avg: "unat (averageBits a) < 31"
    and lsb: "lsbWeight a \<noteq> NaN" "\<not> isinf (lsbWeight a)"
    and den: "fmul binary64 (sampleRate a) (m_voltsPerDegreePerSecond g) \<noteq> NaN"
      "\<not> is_zero (fmul binary64 (sampleRate a) (m_voltsPerDegreePerSecond g))"
  shows "\<exists>z. GetAngle g = Inr z \<and> is_zero z"
proof -
  define D where "D = fmul binary64 (sampleRate a) (m_voltsPerDegreePerSecond g)"
  have 1: "fmul binary32 (Fin 0) (m_offset g) = fzero (isneg (m_offset g))"
    using off by (simp add: fmul_zero_left)
  have 2: "to_int64 (fzero b) = Inr 0" for b by (simp add: to_int64_def to_integer_zero)
  have 3: "fmul binary64 (Fin 0) lit_1e_9 = Fin 0"
    by (simp add: fmul_zero_left fzero_def)
  have 4: "fmul binary64 (Fin 0) (lsbWeight a) = fzero (isneg (lsbWeight a))"
    using lsb by (simp add: fmul_zero_left)
  have 5: "fmul binary64 (fzero b) (Fin (2 ^ unat (averageBits a))) = fzero (isneg (fzero b))" for b
    by (simp add: fmul_zero_left)
  have 6: "fdiv binary64 (fzero b) D = fzero (isneg (fzero b) \<noteq> isneg D)" for b
    using den unfolding D_def by (simp add: fdiv_zero_left)
  have 7: "of_integer binary64 (2 ^ unat (averageBits a)) = Fin (2 ^ unat (averageBits a))"
    using avg by (intro of_integer64_pow2) simp
  have "GetAngle g = Inr (to_float (fzero (isneg (fzero (isneg (fzero (isneg (lsbWeight a))))) \<noteq> isneg D)))"
    using nf a cnt avg
    by (simp add: GetAngle_def 1 2 3 4 5 6 7 shl1_pow sub_int64_def flip: D_def)
  then show ?thesis by (simp add: to_float_zero)
qed

text \<open>
  C6. On a valid object Reset sets the accumulator's value and count to zero and changes
  nothing else: the center, the offset, the sensitivity and the rest of the channel are
  as before. GetAngle on the result returns a zero, when the offset and the LSB weight
  are finite, the shift by the average bits is defined, and the product of sample rate
  and sensitivity is neither zero nor a NaN (the sensitivity is positive by the data
  model).
\<close>

theorem Reset_clears_accumulator_only:
  assumes "\<not> StatusIsFatal g" and "m_analog g = Some a"
  shows "Reset g = Inr (g\<lparr>m_analog := Some (a\<lparr>accumulatorValue := 0, accumulatorCount := 0\<rparr>)\<rparr>)
    \<and> (m_offset g \<noteq> NaN \<and> \<not> isinf (m_offset g) \<and> unat (averageBits a) < 31
        \<and> lsbWeight a \<noteq> NaN \<and> \<not> isinf (lsbWeight a)
        \<and> fmul binary64 (sampleRate a) (m_voltsPerDegreePerSecond g) \<noteq> NaN
        \<and> \<not> is_zero (fmul binary64 (sampleRate a) (m_voltsPerDegreePerSecond g))
       \<longrightarrow> (\<exists>z. GetAngle (g\<lparr>m_analog := Some (a\<lparr>accumulatorValue := 0, accumulatorCount := 0\<rparr>)\<rparr>)
                   = Inr z \<and> is_zero z))"
proof -
  have "Reset g = Inr (g\<lparr>m_analog := Some (a\<lparr>accumulatorValue := 0, accumulatorCount := 0\<rparr>)\<rparr>)"
    using assms by (simp add: Reset_def ResetAccumulator_def)
  moreover have "\<exists>z. GetAngle (g\<lparr>m_analog := Some (a\<lparr>accumulatorValue := 0, accumulatorCount := 0\<rparr>)\<rparr>)
                   = Inr z \<and> is_zero z"
    if "m_offset g \<noteq> NaN \<and> \<not> isinf (m_offset g) \<and> unat (averageBits a) < 31
        \<and> lsbWeight a \<noteq> NaN \<and> \<not> isinf (lsbWeight a)
        \<and> fmul binary64 (sampleRate a) (m_voltsPerDegreePerSecond g) \<noteq> NaN
        \<and> \<not> is_zero (fmul binary64 (sampleRate a) (m_voltsPerDegreePerSecond g))"
    using that assms(1)
    by (intro GetAngle_after_reset[of _ "a\<lparr>accumulatorValue := 0, accumulatorCount := 0\<rparr>"])
       (simp_all add: StatusIsFatal_def)
  ultimately show ?thesis by blast
qed

theorem Reset_clears_accumulator_only_witness:
  "Reset example_gyro_turned = Inr example_gyro
   \<and> m_center example_gyro = m_center example_gyro_turned
   \<and> m_offset example_gyro = m_offset example_gyro_turned
   \<and> m_voltsPerDegreePerSecond example_gyro = m_voltsPerDegreePerSecond example_gyro_turned
   \<and> map_sum id is_zero (GetAngle example_gyro) = Inr True"
proof -
  have d: "fmul binary64 (Fin 50) (Fin (1 / 128)) = Fin (25 / 2 ^ 6)"
    using fround_exact[OF repr64_frac[of 25 6]] by (simp add: fmul_def)
  have e: "example_gyro_turned\<lparr>m_analog := Some (example_input\<lparr>accumulatorValue := 281250000,
      accumulatorCount := 0, accumulatorValue := 0, accumulatorCount := 0\<rparr>)\<rparr> = example_gyro"
    by (simp add: example_gyro_turned_def example_gyro_def example_input_def)
  have h: "\<not> StatusIsFatal example_gyro_turned"
    "m_analog example_gyro_turned
       = Some (example_input\<lparr>accumulatorValue := 281500000, accumulatorCount := 1000000\<rparr>)"
    by (simp_all add: example_gyro_turned_def example_gyro_def StatusIsFatal_def)
  have c: "m_offset example_gyro_turned \<noteq> NaN \<and> \<not> isinf (m_offset example_gyro_turned)
        \<and> unat (averageBits (example_input\<lparr>accumulatorValue := 281500000, accumulatorCount := 1000000\<rparr>)) < 31
        \<and> lsbWeight (example_input\<lparr>accumulatorValue := 281500000, accumulatorCount := 1000000\<rparr>) \<noteq> NaN
        \<and> \<not> isinf (lsbWeight (example_input\<lparr>accumulatorValue := 281500000, accumulatorCount := 1000000\<rparr>))
        \<and> fmul binary64 (sampleRate (example_input\<lparr>accumulatorValue := 281500000, accumulatorCount := 1000000\<rparr>))
              (m_voltsPerDegreePerSecond example_gyro_turned) \<noteq> NaN
        \<and> \<not> is_zero (fmul binary64 (sampleRate (example_input\<lparr>accumulatorValue := 281500000, accumulatorCount := 1000000\<rparr>))
              (m_voltsPerDegreePerSecond example_gyro_turned))"
    by (simp add: example_gyro_turned_def example_gyro_def example_input_def d)
  from Reset_clears_accumulator_only[OF h] c e
  obtain z where r: "Reset example_gyro_turned = Inr example_gyro"
    and z: "GetAngle example_gyro = Inr z" "is_zero z" by auto
  then show ?thesis by (simp add: example_gyro_turned_def)
qed


section \<open>The angle\<close>

text \<open>
  C3, as the code has it. On a valid object GetAngle reads \<open>(raw, count)\<close> from the
  accumulator, takes the \<^verbatim>\<open>float\<close> product of the count and the offset, truncates it
  towards zero and subtracts it from \<open>raw\<close>; it scales the difference by
  \<open>1e-9 * lsbWeight * 2 ^ averageBits / (sampleRate * sensitivity)\<close> in \<^verbatim>\<open>double\<close>
  arithmetic, from left to right, and returns the result as a \<^verbatim>\<open>float\<close>. Nothing folds
  the angle into a turn: the accumulator of the example, which stands for two turns,
  gives 720.
\<close>

theorem GetAngle_formula:
  assumes "\<not> StatusIsFatal g" and "m_analog g = Some a" and "unat (averageBits a) < 31"
    and "fmul binary32 (of_integer binary32 (uint (accumulatorCount a))) (m_offset g) = Fin p"
    and "- (2 ^ 63) \<le> trunc_zero p" and "trunc_zero p \<le> 2 ^ 63 - 1"
    and "- (2 ^ 63) \<le> sint (accumulatorValue a) - trunc_zero p"
    and "sint (accumulatorValue a) - trunc_zero p \<le> 2 ^ 63 - 1"
  shows "GetAngle g =
    Inr (to_float
      (fdiv binary64
         (fmul binary64
            (fmul binary64
               (fmul binary64 (of_integer binary64 (sint (accumulatorValue a) - trunc_zero p)) lit_1e_9)
               (lsbWeight a))
            (Fin (2 ^ unat (averageBits a))))
         (fmul binary64 (sampleRate a) (m_voltsPerDegreePerSecond g))))"
proof -
  have "of_integer binary64 (2 ^ unat (averageBits a)) = Fin (2 ^ unat (averageBits a))"
    using assms(3) by (intro of_integer64_pow2) simp
  then show ?thesis
    using assms by (simp add: GetAngle_def shl1_pow to_int64_def sub_int64_def)
qed

lemma angle_example_steps:
  "of_integer binary32 1000000 = Fin 1000000"
  "fmul binary32 (Fin 1000000) (Fin (1 / 4)) = Fin 250000"
  "of_integer binary64 281250000 = Fin 281250000"
  "fmul binary64 (Fin 281250000) lit_1e_9 = Fin (9 / 32)"
  "fmul binary64 (Fin (9 / 32)) (Fin 1000) = Fin (1125 / 4)"
  "fmul binary64 (Fin (1125 / 4)) (Fin 1) = Fin (1125 / 4)"
  "fmul binary64 (Fin 50) (Fin (1 / 128)) = Fin (25 / 64)"
  "fdiv binary64 (Fin (1125 / 4)) (Fin (25 / 64)) = Fin 720"
  "to_float (Fin 720) = Fin 720"
  unfolding of_integer_def
  using fround_exact[OF repr32_int[of 1000000]] fround_exact[OF repr32_int[of 250000]]
    fround_exact[OF repr64_int[of 281250000]]
    fround_frac_eqI[of 54 binary64 "281250000 * (4835703278458517 / 2 ^ 82)" 5066549580791808]
    fround_exact[OF repr64_frac[of 1125 2]] fround_exact[OF repr64_frac[of 25 6]]
    fround_exact[OF repr64_int[of 720]] fround_exact[OF repr32_int[of 720]]
  by (simp_all add: fmul_def fdiv_def lit_1e_9_eq)


theorem GetAngle_formula_witness:
  "GetAngle example_gyro_turned = Inr (Fin 720)"
proof -
  define a where "a = example_input\<lparr>accumulatorValue := 281500000, accumulatorCount := 1000000\<rparr>"
  have s: "sint (accumulatorValue a) = 281500000" "uint (accumulatorCount a) = 1000000"
    "unat (averageBits a) = 0" "lsbWeight a = Fin 1000" "sampleRate a = Fin 50"
    by (simp_all add: a_def example_input_def)
  have g: "m_offset example_gyro_turned = Fin (1 / 4)"
    "m_voltsPerDegreePerSecond example_gyro_turned = Fin (1 / 128)"
    by (simp_all add: example_gyro_turned_def example_gyro_def)
  have t: "trunc_zero 250000 = 250000" by (simp add: trunc_zero_def)
  have h: "\<not> StatusIsFatal example_gyro_turned" "m_analog example_gyro_turned = Some a"
    "unat (averageBits a) < 31"
    "fmul binary32 (of_integer binary32 (uint (accumulatorCount a))) (m_offset example_gyro_turned)
       = Fin 250000"
    "- (2 ^ 63) \<le> trunc_zero 250000" "trunc_zero 250000 \<le> 2 ^ 63 - 1"
    "- (2 ^ 63) \<le> sint (accumulatorValue a) - trunc_zero 250000"
    "sint (accumulatorValue a) - trunc_zero 250000 \<le> 2 ^ 63 - 1"
    unfolding s g t
    by (simp_all add: example_gyro_turned_def example_gyro_def StatusIsFatal_def a_def
        angle_example_steps)
  show ?thesis
    unfolding GetAngle_formula[OF h] s g t
    using fround_exact[OF repr32_int[of 720]]
    by (simp add: angle_example_steps)
qed

lemma angle_counterexample_steps:
  "of_integer binary32 3 = Fin 3"
  "fmul binary32 (Fin 3) (Fin (1 / 4)) = Fin (3 / 4)"
  "of_integer binary64 1 = Fin 1"
  "fmul binary64 (Fin 1) lit_1e_9 = Fin (4835703278458517 / 2 ^ 82)"
  "fmul binary64 (Fin (4835703278458517 / 2 ^ 82)) (Fin 1000) = Fin (2361183241434823 / 2 ^ 71)"
  "fmul binary64 (Fin (2361183241434823 / 2 ^ 71)) (Fin 1) = Fin (2361183241434823 / 2 ^ 71)"
  "fdiv binary64 (Fin (2361183241434823 / 2 ^ 71)) (Fin (25 / 64)) = Fin (6044629098073147 / 2 ^ 71)"
  "to_float (Fin (6044629098073147 / 2 ^ 71)) = Fin (11258999 / 2 ^ 42)"
  unfolding of_integer_def
  using fround_exact[OF repr32_int[of 3]] fround_exact[OF repr32_frac[of 3 2]]
    fround_exact[OF repr64_int[of 1]]
    fround_exact[OF repr64_frac[of 4835703278458517 82]]
    fround_frac_eqI[of 72 binary64 "4835703278458517 / 2 ^ 82 * 1000" 4722366482869646]
    fround_exact[OF repr64_frac[of 2361183241434823 71]]
    fround_frac_eqI[of 71 binary64 "2361183241434823 / 2 ^ 71 / (25 / 64)" 6044629098073147]
    fround_frac_eqI[of 42 binary32 "6044629098073147 / 2 ^ 71" 11258999]
  by (simp_all add: fmul_def fdiv_def lit_1e_9_eq)

text \<open>
  The claim C3 as the spec has it subtracts \<open>round(count * offset)\<close>. With an offset of
  0.25, a count of 3 and a raw value of 1, the code subtracts 0 (0.75 truncated) and
  returns about 2.56e-6 degrees; with the product rounded to 1 the result would be 0.
\<close>

theorem GetAngle_truncates_counterexample:
  "GetAngle example_gyro_started = Inr (Fin (11258999 / 2 ^ 42))
   \<and> GetAngle_spec example_gyro_started = Inr (Fin 0)"
proof -
  have t: "trunc_zero (3 / 4) = 0" "round_half_up (3 / 4) = 1"
    by (simp_all add: trunc_zero_def round_half_up_def)
  have s: "shl1 0 = Inr 1" using shl1_pow[of 0] by simp
  have z: "fmul binary64 (Fin 0) lit_1e_9 = Fin 0" "fmul binary64 (Fin 0) (Fin 1000) = Fin 0"
    "fmul binary64 (Fin 0) (Fin 1) = Fin 0" "fdiv binary64 (Fin 0) (Fin (25 / 64)) = Fin 0"
    by (simp_all add: fmul_def fdiv_def fzero_def lit_1e_9_eq)
  have 1: "GetAngle example_gyro_started = Inr (Fin (11258999 / 2 ^ 42))"
    using angle_counterexample_steps angle_example_steps(7) t s
    by (simp add: GetAngle_def example_gyro_started_def example_gyro_def example_input_def
        StatusIsFatal_def to_int64_def sub_int64_def)
  have 2: "GetAngle_spec example_gyro_started = Inr (Fin 0)"
    using angle_counterexample_steps angle_example_steps(7) t s z
    by (simp add: GetAngle_spec_def example_gyro_started_def example_gyro_def example_input_def
        StatusIsFatal_def sub_int64_def)
  from 1 2 show ?thesis by simp
qed


section \<open>The rate\<close>

lemma of_integer32_pow2: "n < 31 \<Longrightarrow> of_integer binary32 (2 ^ n) = Fin (2 ^ n)"
proof -
  assume "n < 31"
  then have "repr binary32 (of_int 1 * 2 ^ n)" by (intro repr_scaled) simp_all
  then show ?thesis unfolding of_integer_def using fround_exact by fastforce
qed

lemma GetRate_unfold:
  assumes "\<not> StatusIsFatal g" and "m_analog g = Some a" and "unat (oversampleBits a) < 31"
  shows "GetRate g =
    Inr (fdiv binary64
           (fmul binary64
              (fmul binary64
                 (fsub binary64 (averageValue a)
                    (fadd binary64 (of_integer binary64 (uint (m_center g))) (m_offset g)))
                 lit_1e_9)
              (lsbWeight a))
           (fmul binary32 (Fin (2 ^ unat (oversampleBits a))) (m_voltsPerDegreePerSecond g)))"
proof -
  have "of_integer binary32 (2 ^ unat (oversampleBits a)) = Fin (2 ^ unat (oversampleBits a))"
    using assms(3) by (intro of_integer32_pow2) simp
  then show ?thesis using assms by (simp add: GetRate_def shl1_pow)
qed

lemma bias_sum:
  assumes m: "repr binary32 m" and t: "0 \<le> t" "t < 2 ^ 32"
  shows "fadd binary64 (of_integer binary64 t) (Fin (m - of_int t)) = Fin m"
proof -
  have "\<bar>t\<bar> < 2 ^ 53" using t by simp
  then have o: "of_integer binary64 t = Fin (of_int t)"
    unfolding of_integer_def by (intro fround_exact repr64_int)
  show ?thesis unfolding o using fround_exact[OF repr32_64[OF m]] by (simp add: fadd_def)
qed

lemma fsub_self: "fsub F (Fin m) (Fin m) = Fin 0"
  by (simp add: fsub_def fadd_def)

text \<open>When the averaged value is the \<^verbatim>\<open>float\<close> mean of the calibration itself, the
  difference is zero and so is the rate.\<close>

lemma GetRate_at_rest:
  assumes "\<not> StatusIsFatal g" and "m_analog g = Some a" and "unat (oversampleBits a) < 31"
    and m: "repr binary32 m" and t: "0 \<le> t" "t < 2 ^ 32"
    and c: "m_center g = word_of_int t" and off: "m_offset g = Fin (m - of_int t)"
    and avg: "averageValue a = Fin m"
    and lsb: "lsbWeight a \<noteq> NaN" "\<not> isinf (lsbWeight a)"
    and den: "fmul binary32 (Fin (2 ^ unat (oversampleBits a))) (m_voltsPerDegreePerSecond g) \<noteq> NaN"
      "\<not> is_zero (fmul binary32 (Fin (2 ^ unat (oversampleBits a))) (m_voltsPerDegreePerSecond g))"
  shows "\<exists>z. GetRate g = Inr z \<and> is_zero z"
proof -
  define D where "D = fmul binary32 (Fin (2 ^ unat (oversampleBits a))) (m_voltsPerDegreePerSecond g)"
  have u: "uint (word_of_int t :: 32 word) = t" using t by (rule uint_center)
  have 1: "fadd binary64 (of_integer binary64 (uint (m_center g))) (m_offset g) = Fin m"
    unfolding c off u using m t by (rule bias_sum)
  have 3: "fmul binary64 (Fin 0) lit_1e_9 = Fin 0"
    by (simp add: fmul_zero_left fzero_def)
  have 4: "fmul binary64 (Fin 0) (lsbWeight a) = fzero (isneg (lsbWeight a))"
    using lsb by (simp add: fmul_zero_left)
  have 6: "fdiv binary64 (fzero b) D = fzero (isneg (fzero b) \<noteq> isneg D)" for b
    using den unfolding D_def by (simp add: fdiv_zero_left)
  have "GetRate g = Inr (fzero (isneg (fzero (isneg (lsbWeight a))) \<noteq> isneg D))"
    unfolding GetRate_unfold[OF assms(1-3)] 1 avg fsub_self 3 4 D_def[symmetric] 6 ..
  then show ?thesis by simp
qed

subsection \<open>The error of one rounding\<close>

text \<open>The rounded value is within half a quantum of the real: within \<open>2 ^ - fprec\<close> of
  it, relatively, or within half of the smallest quantum. So the magnitude of a real
  below \<open>b\<close> stays below \<open>rounded F b\<close>, and an operation on finite values whose exact
  result is so bounded returns a finite value, when the bound is below the overflow
  threshold of the format.\<close>

lemma rnd_err:
  "\<bar>rnd F x - x\<bar> \<le> \<bar>x\<bar> / 2 ^ fprec F \<or> \<bar>rnd F x - x\<bar> \<le> 1 / (2 * 2 ^ fbias F)"
proof -
  define B :: real where "B = 2 ^ fbias F"
  define P :: real where "P = 2 ^ fprec F"
  have B: "0 < B" and P: "0 < P" by (simp_all add: B_def P_def)
  obtain i where i: "i \<le> fspan F"
    and r: "rnd F x = of_int (rne (x / (2 ^ i / B))) * (2 ^ i / B)"
    and lo: "i = 0 \<or> 2 ^ (i - 1) / B * P \<le> \<bar>x\<bar>"
    using rnd_unfold[of F x] unfolding B_def P_def by blast
  define Q where "Q = 2 ^ i / B"
  have Q: "0 < Q" unfolding Q_def using B by simp
  have "\<bar>rnd F x - x\<bar> = \<bar>of_int (rne (x / Q)) - x / Q\<bar> * Q"
  proof -
    have "rnd F x - x = (of_int (rne (x / Q)) - x / Q) * Q"
      unfolding r Q_def[symmetric] using Q by (simp add: algebra_simps)
    then show ?thesis using Q by (simp add: abs_mult)
  qed
  also have "\<dots> \<le> 1 / 2 * Q" using rne_err[of "x / Q"] Q by (intro mult_right_mono) simp_all
  finally have e: "\<bar>rnd F x - x\<bar> \<le> Q / 2" by simp
  show ?thesis
  proof (cases "i = 0")
    case True
    then have "Q / 2 = 1 / (2 * 2 ^ fbias F)" unfolding Q_def B_def by simp
    with e show ?thesis by simp
  next
    case False
    then have i1: "(2::real) ^ i = 2 * 2 ^ (i - 1)" by (cases i) simp_all
    from False lo have "2 ^ (i - 1) / B * P \<le> \<bar>x\<bar>" by simp
    then have "2 ^ (i - 1) / B \<le> \<bar>x\<bar> / P" using P by (simp add: pos_le_divide_eq)
    moreover have "Q / 2 = 2 ^ (i - 1) / B" unfolding Q_def i1 by simp
    ultimately show ?thesis using e unfolding P_def by simp
  qed
qed

lemma rnd_err_normal:
  assumes "2 ^ fprec F / (2 * 2 ^ fbias F) \<le> \<bar>x\<bar>"
  shows "\<bar>rnd F x - x\<bar> \<le> \<bar>x\<bar> / 2 ^ fprec F"
proof -
  have "1 / (2 * 2 ^ fbias F) \<le> \<bar>x\<bar> / 2 ^ fprec F"
  proof -
    have "2 ^ fprec F / (2 * 2 ^ fbias F) / 2 ^ fprec F \<le> \<bar>x\<bar> / 2 ^ fprec F"
      using assms by (intro divide_right_mono) simp_all
    then show ?thesis by simp
  qed
  with rnd_err[of F x] show ?thesis by linarith
qed

lemma rnd_rounded: "\<bar>x\<bar> \<le> b \<Longrightarrow> \<bar>rnd F x\<bar> \<le> rounded F b"
proof -
  assume b: "\<bar>x\<bar> \<le> b"
  have "\<bar>x\<bar> / 2 ^ fprec F \<le> b / 2 ^ fprec F" using b by (intro divide_right_mono) simp_all
  moreover have "0 \<le> \<bar>x\<bar> / 2 ^ fprec F" "(0::real) \<le> 1 / (2 * 2 ^ fbias F)" by simp_all
  ultimately have "\<bar>rnd F x - x\<bar> \<le> b / 2 ^ fprec F + 1 / (2 * 2 ^ fbias F)"
    using rnd_err[of F x] by linarith
  then have "\<bar>rnd F x\<bar> \<le> b + b / 2 ^ fprec F + 1 / (2 * 2 ^ fbias F)" using b by linarith
  then show ?thesis unfolding rounded_def by (simp add: algebra_simps)
qed

lemma fround_Fin_rnd: "fround F x = Fin y \<Longrightarrow> y = rnd F x"
  by (simp add: fround_def Let_def split: if_splits)

lemma fround_rounded:
  assumes "\<bar>x\<bar> \<le> b" and "rounded F b < 2 ^ fprec F * (2 ^ fspan F / 2 ^ fbias F)"
  shows "fround F x \<noteq> NaN \<and> \<not> isinf (fround F x) \<and> \<bar>rval (fround F x)\<bar> \<le> rounded F b"
proof -
  have r: "\<bar>rnd F x\<bar> \<le> rounded F b" using assms(1) by (rule rnd_rounded)
  then have "\<not> 2 ^ fprec F * (2 ^ fspan F / 2 ^ fbias F) \<le> \<bar>rnd F x\<bar>" using assms(2) by linarith
  moreover have "0 \<le> rounded F b" using r by linarith
  ultimately show ?thesis using r by (simp add: fround_def Let_def)
qed

lemma rounded_nonneg: "0 \<le> b \<Longrightarrow> 0 \<le> rounded F b"
  by (simp add: rounded_def)

lemma fzero_rounded:
  "0 \<le> b \<Longrightarrow> fzero s \<noteq> NaN \<and> \<not> isinf (fzero s) \<and> \<bar>rval (fzero s)\<bar> \<le> rounded F b"
  using rounded_nonneg[of b F] by (simp add: fzero_def)

lemma fsub_rounded:
  assumes a: "a \<noteq> NaN" "\<not> isinf a" and b: "b \<noteq> NaN" "\<not> isinf b"
    and d: "\<bar>rval a - rval b\<bar> \<le> bd"
    and ov: "rounded F bd < 2 ^ fprec F * (2 ^ fspan F / 2 ^ fbias F)"
  shows "fsub F a b \<noteq> NaN \<and> \<not> isinf (fsub F a b) \<and> \<bar>rval (fsub F a b)\<bar> \<le> rounded F bd"
proof -
  have n: "fneg b \<noteq> NaN" "\<not> isinf (fneg b)" "rval (fneg b) = - rval b"
    using b by (cases b; simp)+
  have z: "0 \<le> rounded F bd" using d by (intro rounded_nonneg) linarith
  have r: "\<bar>rval a + rval (fneg b)\<bar> \<le> bd" using d n(3) by simp
  show ?thesis
    unfolding fsub_def fadd_def using a n(1,2) z fround_rounded[OF r ov] by simp
qed

lemma fmul_rounded:
  assumes a: "a \<noteq> NaN" "\<not> isinf a" and b: "b \<noteq> NaN" "\<not> isinf b"
    and d: "\<bar>rval a * rval b\<bar> \<le> bd"
    and ov: "rounded F bd < 2 ^ fprec F * (2 ^ fspan F / 2 ^ fbias F)"
  shows "fmul F a b \<noteq> NaN \<and> \<not> isinf (fmul F a b) \<and> \<bar>rval (fmul F a b)\<bar> \<le> rounded F bd"
proof -
  have z: "0 \<le> bd" using d by linarith
  show ?thesis
    unfolding fmul_def Let_def using a b fzero_rounded[OF z] fround_rounded[OF d ov] by simp
qed

lemma fdiv_rounded:
  assumes a: "a \<noteq> NaN" "\<not> isinf a" and b: "b \<noteq> NaN" "\<not> isinf b" "\<not> is_zero b"
    and d: "\<bar>rval a / rval b\<bar> \<le> bd"
    and ov: "rounded F bd < 2 ^ fprec F * (2 ^ fspan F / 2 ^ fbias F)"
  shows "fdiv F a b \<noteq> NaN \<and> \<not> isinf (fdiv F a b) \<and> \<bar>rval (fdiv F a b)\<bar> \<le> rounded F bd"
proof -
  have z: "0 \<le> bd" using d by linarith
  show ?thesis
    unfolding fdiv_def Let_def using a b fzero_rounded[OF z] fround_rounded[OF d ov] by simp
qed

lemma max64: "(2::real) ^ fprec binary64 * (2 ^ fspan binary64 / 2 ^ fbias binary64) = 2 ^ 1024"
proof -
  have "(2::real) ^ 2045 = 2 ^ 971 * 2 ^ 1074" by (simp flip: power_add)
  then have "(2::real) ^ 2045 / 2 ^ 1074 = 2 ^ 971" by simp
  then show ?thesis by (simp flip: power_add)
qed

lemma rounded64_small:
  assumes "0 \<le> b" "b < 2 ^ 1024" "0 \<le> e" "e \<le> 1 / 4"
  shows "rounded binary64 (b * e) < 2 ^ 1024"
proof -
  define M :: real where "M = 2 ^ 1022"
  have M: "1 \<le> M" unfolding M_def by simp
  have M4: "(2::real) ^ 1024 = 4 * M" unfolding M_def by simp
  have "b * e \<le> b * (1 / 4)" using assms by (intro mult_left_mono) simp_all
  then have be: "b * e \<le> M" using assms(2) unfolding M4 by simp
  have M0: "0 \<le> M" using M by simp
  have "b * e * (1 + 1 / 2 ^ 53) \<le> M * 2"
    using be assms(1,3) M0 by (intro mult_mono) simp_all
  moreover have "(1::real) / (2 * 2 ^ 1074) \<le> 1" by simp
  ultimately have "rounded binary64 (b * e) \<le> M * 2 + 1" unfolding rounded_def by simp
  then show ?thesis unfolding M4 using M by linarith
qed

subsection \<open>The error of the mean\<close>

text \<open>The \<^verbatim>\<open>float\<close> mean rounds three times: the value, the count and the quotient,
  none of them in the subnormal range. It is within \<open>2 ^ - 22\<close> of the exact quotient,
  relatively.\<close>

lemma quotient_error:
  fixes V C a b m :: real
  assumes C: "1 \<le> C" and a: "\<bar>a - V\<bar> \<le> \<bar>V\<bar> / 2 ^ 24" and b: "\<bar>b - C\<bar> \<le> C / 2 ^ 24"
    and m: "\<bar>m - a / b\<bar> \<le> \<bar>a / b\<bar> / 2 ^ 24"
  shows "\<bar>m - V / C\<bar> \<le> \<bar>V / C\<bar> / 2 ^ 22"
proof -
  define r where "r = \<bar>V\<bar> / C"
  have r: "0 \<le> r" unfolding r_def using C by simp
  have Cpos: "0 < C" using C by simp
  have b': "\<bar>b - C\<bar> \<le> C / 16777216" using b by simp
  have bl: "C * (16777215 / 16777216) \<le> b" using b' by linarith
  have bpos: "0 < b" using bl Cpos by linarith
  have vb: "\<bar>V\<bar> / b \<le> r * (16777216 / 16777215)"
  proof -
    have "\<bar>V\<bar> / b \<le> \<bar>V\<bar> / (C * (16777215 / 16777216))"
      using bl Cpos by (intro divide_left_mono) simp_all
    then show ?thesis unfolding r_def by simp
  qed
  have x1: "\<bar>a / b - V / C\<bar> \<le> 2 / 2 ^ 24 * (\<bar>V\<bar> / b)"
  proof -
    have e: "a / b - V / C = ((a - V) * C - V * (b - C)) / (b * C)"
      using bpos Cpos by (simp add: field_simps)
    have "\<bar>(a - V) * C - V * (b - C)\<bar> \<le> \<bar>(a - V) * C\<bar> + \<bar>V * (b - C)\<bar>" by (rule abs_triangle_ineq4)
    also have "\<dots> = \<bar>a - V\<bar> * C + \<bar>V\<bar> * \<bar>b - C\<bar>" using Cpos by (simp add: abs_mult)
    also have "\<dots> \<le> \<bar>V\<bar> / 2 ^ 24 * C + \<bar>V\<bar> * (C / 2 ^ 24)"
      using a b Cpos by (intro add_mono mult_right_mono mult_left_mono) simp_all
    finally have n: "\<bar>(a - V) * C - V * (b - C)\<bar> \<le> 2 / 2 ^ 24 * \<bar>V\<bar> * C" by (simp add: algebra_simps)
    have "\<bar>a / b - V / C\<bar> = \<bar>(a - V) * C - V * (b - C)\<bar> / (b * C)"
      unfolding e using bpos Cpos by (simp add: abs_mult)
    also have "\<dots> \<le> (2 / 2 ^ 24 * \<bar>V\<bar> * C) / (b * C)"
      using n bpos Cpos by (intro divide_right_mono) simp_all
    also have "\<dots> = 2 / 2 ^ 24 * (\<bar>V\<bar> / b)" using Cpos by simp
    finally show ?thesis .
  qed
  have x3: "\<bar>a / b\<bar> \<le> (1 + 1 / 2 ^ 24) * (\<bar>V\<bar> / b)"
  proof -
    have "\<bar>a\<bar> \<le> \<bar>V\<bar> + \<bar>V\<bar> / 2 ^ 24" using a by linarith
    then have "\<bar>a\<bar> / b \<le> (\<bar>V\<bar> + \<bar>V\<bar> / 2 ^ 24) / b" using bpos by (intro divide_right_mono) simp_all
    then show ?thesis using bpos by (simp add: algebra_simps add_divide_distrib)
  qed
  have "\<bar>m - V / C\<bar> \<le> \<bar>m - a / b\<bar> + \<bar>a / b - V / C\<bar>" by linarith
  also have "\<dots> \<le> (1 + 1 / 2 ^ 24) * (\<bar>V\<bar> / b) / 2 ^ 24 + 2 / 2 ^ 24 * (\<bar>V\<bar> / b)"
  proof (intro add_mono)
    have "\<bar>a / b\<bar> / 2 ^ 24 \<le> (1 + 1 / 2 ^ 24) * (\<bar>V\<bar> / b) / 2 ^ 24"
      using x3 by (intro divide_right_mono) simp_all
    with m show "\<bar>m - a / b\<bar> \<le> (1 + 1 / 2 ^ 24) * (\<bar>V\<bar> / b) / 2 ^ 24" by (rule order_trans)
    show "\<bar>a / b - V / C\<bar> \<le> 2 / 2 ^ 24 * (\<bar>V\<bar> / b)" by (rule x1)
  qed
  also have "\<dots> = (\<bar>V\<bar> / b) * ((1 + 1 / 2 ^ 24) / 2 ^ 24 + 2 / 2 ^ 24)" by (simp add: algebra_simps)
  also have "\<dots> \<le> (r * (16777216 / 16777215)) * ((1 + 1 / 2 ^ 24) / 2 ^ 24 + 2 / 2 ^ 24)"
    using vb by (intro mult_right_mono) simp_all
  also have "\<dots> = r * (16777216 / 16777215 * ((1 + 1 / 2 ^ 24) / 2 ^ 24 + 2 / 2 ^ 24))" by simp
  also have "\<dots> \<le> r * (1 / 2 ^ 22)" using r by (intro mult_left_mono) simp_all
  finally show ?thesis unfolding r_def using Cpos by (simp add: abs_divide)
qed

lemma rnd32_normal:
  assumes "1 / 2 ^ 32 \<le> \<bar>x\<bar>"
  shows "\<bar>rnd binary32 x - x\<bar> \<le> \<bar>x\<bar> / 2 ^ 24"
proof -
  have "(2::real) ^ fprec binary32 / (2 * 2 ^ fbias binary32) \<le> 1 / 2 ^ 32" by simp
  with assms have "2 ^ fprec binary32 / (2 * 2 ^ fbias binary32) \<le> \<bar>x\<bar>" by (rule order_trans[rotated])
  from rnd_err_normal[OF this] show ?thesis by simp
qed

lemma mean_error:
  assumes "c \<noteq> 0"
  shows "\<exists>m. mean v c = Fin m \<and> repr binary32 m
     \<and> \<bar>m - real_of_int (sint v) / real_of_int (uint c)\<bar>
         \<le> \<bar>real_of_int (sint v) / real_of_int (uint c)\<bar> / 2 ^ 22"
proof -
  define V where "V = real_of_int (sint v)"
  define C where "C = real_of_int (uint c)"
  obtain b where b: "of_integer binary32 (uint c) = Fin b" "1 \<le> b" "b \<le> 2 ^ 32"
    using count_finite[OF assms] by blast
  obtain a where a: "of_integer binary32 (sint v) = Fin a"
    "sint v = 0 \<longrightarrow> a = 0" "0 < sint v \<longrightarrow> 1 \<le> a" "sint v < 0 \<longrightarrow> a \<le> - 1"
    using value_finite[of v] by blast
  obtain m where m: "mean v c = Fin m" "repr binary32 m"
    using mean_finite[OF assms] by blast
  have br: "b = rnd binary32 C" using b(1) unfolding of_integer_def C_def by (rule fround_Fin_rnd)
  have ar: "a = rnd binary32 V" using a(1) unfolding of_integer_def V_def by (rule fround_Fin_rnd)
  have "uint c \<noteq> 0" using assms by (simp add: uint_0_iff)
  then have "1 \<le> uint c" using uint_ge_0[of c] by linarith
  then have C1: "1 \<le> C" unfolding C_def by linarith
  have bpos: "0 < b" using b(2) by simp
  show ?thesis
  proof (cases "sint v = 0")
    case True
    then have "a = 0" "V = 0" using a(2) by (simp_all add: V_def)
    then have "mean v c = Fin 0" using a(1) b(1) bpos by (simp add: mean_def fdiv_def fzero_def)
    then show ?thesis using \<open>V = 0\<close> unfolding V_def by simp
  next
    case False
    then have a1: "1 \<le> \<bar>a\<bar>" using a(3,4) by (cases "0 < sint v") auto
    from False have "1 \<le> \<bar>sint v\<bar>" by linarith
    then have V1: "1 \<le> \<bar>V\<bar>" unfolding V_def by linarith
    have eb: "\<bar>b - C\<bar> \<le> C / 2 ^ 24"
    proof -
      have "1 / 2 ^ 32 \<le> \<bar>C\<bar>" using C1 by simp
      from rnd32_normal[OF this] show ?thesis using C1 br by simp
    qed
    have ea: "\<bar>a - V\<bar> \<le> \<bar>V\<bar> / 2 ^ 24"
    proof -
      have "(1::real) / 2 ^ 32 \<le> 1" by simp
      with V1 have "1 / 2 ^ 32 \<le> \<bar>V\<bar>" by linarith
      from rnd32_normal[OF this] show ?thesis using ar by simp
    qed
    have q: "1 / 2 ^ 32 \<le> \<bar>a / b\<bar>"
    proof -
      have "1 / 2 ^ 32 \<le> 1 / b" using b(3) bpos by (intro divide_left_mono) simp_all
      also have "1 / b \<le> \<bar>a\<bar> / b" using a1 bpos by (intro divide_right_mono) simp_all
      finally show ?thesis using bpos by simp
    qed
    have "a \<noteq> 0" using a1 by auto
    then have "mean v c = fround binary32 (a / b)"
      using a(1) b(1) bpos by (simp add: mean_def fdiv_def)
    with m(1) have mr: "m = rnd binary32 (a / b)" by (simp add: fround_Fin_rnd)
    have em: "\<bar>m - a / b\<bar> \<le> \<bar>a / b\<bar> / 2 ^ 24" unfolding mr using q by (rule rnd32_normal)
    from quotient_error[OF C1 ea eb em] m show ?thesis unfolding V_def C_def by blast
  qed
qed

subsection \<open>The rate after a calibration\<close>

text \<open>Center plus offset is the \<^verbatim>\<open>float\<close> mean \<open>m\<close> exactly; from an averaged value
  within \<open>\<delta>\<close> of \<open>m\<close> the four operations of GetRate round four times.\<close>

lemma GetRate_tolerance:
  assumes v: "\<not> StatusIsFatal g" "m_analog g = Some a" "unat (oversampleBits a) < 31"
    and m: "repr binary32 m" and t: "0 \<le> t" "t < 2 ^ 32"
    and c: "m_center g = word_of_int t" and off: "m_offset g = Fin (m - of_int t)"
    and avg: "averageValue a \<noteq> NaN" "\<not> isinf (averageValue a)" "\<bar>rval (averageValue a) - m\<bar> \<le> \<delta>"
    and lsb: "lsbWeight a \<noteq> NaN" "\<not> isinf (lsbWeight a)"
    and den: "D = fmul binary32 (Fin (2 ^ unat (oversampleBits a))) (m_voltsPerDegreePerSecond g)"
      "D \<noteq> NaN" "\<not> isinf D" "\<not> is_zero D"
    and b: "b1 = rounded binary64 \<delta>" "b2 = rounded binary64 (b1 * rval lit_1e_9)"
      "b3 = rounded binary64 (b2 * \<bar>rval (lsbWeight a)\<bar>)" "b4 = rounded binary64 (b3 / \<bar>rval D\<bar>)"
    and ov: "b1 < 2 ^ 1024" "b3 < 2 ^ 1024" "b4 < 2 ^ 1024"
  shows "\<exists>z. GetRate g = Inr z \<and> z \<noteq> NaN \<and> \<not> isinf z \<and> \<bar>rval z\<bar> \<le> b4"
proof -
  have u: "uint (word_of_int t :: 32 word) = t" using t by (rule uint_center)
  have 1: "fadd binary64 (of_integer binary64 (uint (m_center g))) (m_offset g) = Fin m"
    unfolding c off u using m t by (rule bias_sum)
  define d where "d = fsub binary64 (averageValue a) (Fin m)"
  define p1 where "p1 = fmul binary64 d lit_1e_9"
  define p2 where "p2 = fmul binary64 p1 (lsbWeight a)"
  define z where "z = fdiv binary64 p2 D"
  have G: "GetRate g = Inr z"
    unfolding GetRate_unfold[OF v] 1 z_def p2_def p1_def d_def den(1) ..
  have d0: "0 \<le> \<delta>" using avg(3) by linarith
  have b10: "0 \<le> b1" unfolding b(1) using d0 by (rule rounded_nonneg)
  have dd: "d \<noteq> NaN \<and> \<not> isinf d \<and> \<bar>rval d\<bar> \<le> b1"
    unfolding d_def b(1)
  proof (rule fsub_rounded)
    show "\<bar>rval (averageValue a) - rval (Fin m)\<bar> \<le> \<delta>" using avg(3) by simp
    show "rounded binary64 \<delta> < 2 ^ fprec binary64 * (2 ^ fspan binary64 / 2 ^ fbias binary64)"
      unfolding max64 using ov(1) b(1) by simp
  qed (use avg in simp_all)
  have E: "0 \<le> rval lit_1e_9" "rval lit_1e_9 \<le> 1 / 4" by (simp_all add: lit_1e_9_eq)
  have pp1: "p1 \<noteq> NaN \<and> \<not> isinf p1 \<and> \<bar>rval p1\<bar> \<le> b2"
    unfolding p1_def b(2)
  proof (rule fmul_rounded)
    show "\<bar>rval d * rval lit_1e_9\<bar> \<le> b1 * rval lit_1e_9"
      using dd E(1) by (simp add: abs_mult mult_right_mono)
    show "rounded binary64 (b1 * rval lit_1e_9)
            < 2 ^ fprec binary64 * (2 ^ fspan binary64 / 2 ^ fbias binary64)"
      unfolding max64 using b10 ov(1) E by (rule rounded64_small)
  qed (use dd in simp_all)
  have pp2: "p2 \<noteq> NaN \<and> \<not> isinf p2 \<and> \<bar>rval p2\<bar> \<le> b3"
    unfolding p2_def b(3)
  proof (rule fmul_rounded)
    show "\<bar>rval p1 * rval (lsbWeight a)\<bar> \<le> b2 * \<bar>rval (lsbWeight a)\<bar>"
      using pp1 by (simp add: abs_mult mult_right_mono)
    show "rounded binary64 (b2 * \<bar>rval (lsbWeight a)\<bar>)
            < 2 ^ fprec binary64 * (2 ^ fspan binary64 / 2 ^ fbias binary64)"
      unfolding max64 using ov(2) b(3) by simp
  qed (use pp1 lsb in simp_all)
  have zz: "z \<noteq> NaN \<and> \<not> isinf z \<and> \<bar>rval z\<bar> \<le> b4"
    unfolding z_def b(4)
  proof (rule fdiv_rounded)
    show "\<bar>rval p2 / rval D\<bar> \<le> b3 / \<bar>rval D\<bar>"
      using pp2 by (simp add: divide_right_mono)
    show "rounded binary64 (b3 / \<bar>rval D\<bar>)
            < 2 ^ fprec binary64 * (2 ^ fspan binary64 / 2 ^ fbias binary64)"
      unfolding max64 using ov(3) b(4) by simp
  qed (use pp2 den in simp_all)
  from G zz show ?thesis by blast
qed

text \<open>
  C4. On a valid object GetRate returns
  \<open>(average value - (center + offset)) * 1e-9 * lsbWeight / (2 ^ oversampleBits * sensitivity)\<close>
  as a \<^verbatim>\<open>double\<close>: the numerator in \<^verbatim>\<open>double\<close> arithmetic from left to right, the
  product of the denominator in \<^verbatim>\<open>float\<close> arithmetic. After a calibration that returned
  on an accumulator \<open>(v, c)\<close>, center plus offset is the \<^verbatim>\<open>float\<close> mean of the window,
  which is within \<open>2 ^ - 22\<close> of the exact mean \<open>v / c\<close>, relatively. So when the
  channel's averaged value is within \<open>\<epsilon>\<close> of \<open>v / c\<close> (on a stationary stream it is
  the mean, and \<open>\<epsilon>\<close> is 0), and the LSB weight and the denominator \<open>D\<close> are finite and
  \<open>D\<close> is not zero, GetRate returns a finite value of magnitude at most
  \<open>(\<epsilon> + \<bar>v / c\<bar> / 2 ^ 22) * 1e-9 * \<bar>lsbWeight\<bar> / \<bar>D\<bar>\<close>, with the error of each of the four
  roundings to \<^verbatim>\<open>double\<close> added: the bound \<open>b4\<close>. The bounds \<open>b1\<close>, \<open>b3\<close> and \<open>b4\<close> are
  taken below \<open>2 ^ 1024\<close>, where a \<^verbatim>\<open>double\<close> overflows.
\<close>

theorem GetRate_formula:
  assumes "\<not> StatusIsFatal g" and "m_analog g = Some a" and "unat (oversampleBits a) < 31"
  shows "GetRate g =
    Inr (fdiv binary64
           (fmul binary64
              (fmul binary64
                 (fsub binary64 (averageValue a)
                    (fadd binary64 (of_integer binary64 (uint (m_center g))) (m_offset g)))
                 lit_1e_9)
              (lsbWeight a))
           (fmul binary32 (Fin (2 ^ unat (oversampleBits a))) (m_voltsPerDegreePerSecond g)))
    \<and> (\<not> StatusIsFatal g0 \<and> m_analog g0 = Some a0
         \<and> hw (kCalibrationSampleTime K) (InitAccumulator a0) = (v, c, x) \<and> c \<noteq> 0
         \<and> Calibrate K hw g0 = Inr g1
         \<and> m_center g = m_center g1 \<and> m_offset g = m_offset g1
         \<and> averageValue a \<noteq> NaN \<and> \<not> isinf (averageValue a)
         \<and> \<bar>rval (averageValue a) - real_of_int (sint v) / real_of_int (uint c)\<bar> \<le> \<epsilon>
         \<and> lsbWeight a \<noteq> NaN \<and> \<not> isinf (lsbWeight a)
         \<and> D = fmul binary32 (Fin (2 ^ unat (oversampleBits a))) (m_voltsPerDegreePerSecond g)
         \<and> D \<noteq> NaN \<and> \<not> isinf D \<and> \<not> is_zero D
         \<and> b1 = rounded binary64 (\<epsilon> + \<bar>real_of_int (sint v) / real_of_int (uint c)\<bar> / 2 ^ 22)
         \<and> b2 = rounded binary64 (b1 * rval lit_1e_9)
         \<and> b3 = rounded binary64 (b2 * \<bar>rval (lsbWeight a)\<bar>)
         \<and> b4 = rounded binary64 (b3 / \<bar>rval D\<bar>)
         \<and> b1 < 2 ^ 1024 \<and> b3 < 2 ^ 1024 \<and> b4 < 2 ^ 1024
        \<longrightarrow> (\<exists>z. GetRate g = Inr z \<and> z \<noteq> NaN \<and> \<not> isinf z \<and> \<bar>rval z\<bar> \<le> b4))"
proof (intro conjI impI)
  show "GetRate g =
    Inr (fdiv binary64
           (fmul binary64
              (fmul binary64
                 (fsub binary64 (averageValue a)
                    (fadd binary64 (of_integer binary64 (uint (m_center g))) (m_offset g)))
                 lit_1e_9)
              (lsbWeight a))
           (fmul binary32 (Fin (2 ^ unat (oversampleBits a))) (m_voltsPerDegreePerSecond g)))"
    using assms by (rule GetRate_unfold)
next
  define \<mu> where "\<mu> = real_of_int (sint v) / real_of_int (uint c)"
  assume "\<not> StatusIsFatal g0 \<and> m_analog g0 = Some a0
         \<and> hw (kCalibrationSampleTime K) (InitAccumulator a0) = (v, c, x) \<and> c \<noteq> 0
         \<and> Calibrate K hw g0 = Inr g1
         \<and> m_center g = m_center g1 \<and> m_offset g = m_offset g1
         \<and> averageValue a \<noteq> NaN \<and> \<not> isinf (averageValue a)
         \<and> \<bar>rval (averageValue a) - real_of_int (sint v) / real_of_int (uint c)\<bar> \<le> \<epsilon>
         \<and> lsbWeight a \<noteq> NaN \<and> \<not> isinf (lsbWeight a)
         \<and> D = fmul binary32 (Fin (2 ^ unat (oversampleBits a))) (m_voltsPerDegreePerSecond g)
         \<and> D \<noteq> NaN \<and> \<not> isinf D \<and> \<not> is_zero D
         \<and> b1 = rounded binary64 (\<epsilon> + \<bar>real_of_int (sint v) / real_of_int (uint c)\<bar> / 2 ^ 22)
         \<and> b2 = rounded binary64 (b1 * rval lit_1e_9)
         \<and> b3 = rounded binary64 (b2 * \<bar>rval (lsbWeight a)\<bar>)
         \<and> b4 = rounded binary64 (b3 / \<bar>rval D\<bar>)
         \<and> b1 < 2 ^ 1024 \<and> b3 < 2 ^ 1024 \<and> b4 < 2 ^ 1024"
  then have cal: "\<not> StatusIsFatal g0" "m_analog g0 = Some a0"
      "hw (kCalibrationSampleTime K) (InitAccumulator a0) = (v, c, x)" "c \<noteq> 0"
      "Calibrate K hw g0 = Inr g1"
    and same: "m_center g = m_center g1" "m_offset g = m_offset g1"
    and avg: "averageValue a \<noteq> NaN" "\<not> isinf (averageValue a)" "\<bar>rval (averageValue a) - \<mu>\<bar> \<le> \<epsilon>"
    and lsb: "lsbWeight a \<noteq> NaN" "\<not> isinf (lsbWeight a)"
    and den: "D = fmul binary32 (Fin (2 ^ unat (oversampleBits a))) (m_voltsPerDegreePerSecond g)"
      "D \<noteq> NaN" "\<not> isinf D" "\<not> is_zero D"
    and b: "b1 = rounded binary64 (\<epsilon> + \<bar>\<mu>\<bar> / 2 ^ 22)" "b2 = rounded binary64 (b1 * rval lit_1e_9)"
      "b3 = rounded binary64 (b2 * \<bar>rval (lsbWeight a)\<bar>)" "b4 = rounded binary64 (b3 / \<bar>rval D\<bar>)"
    and ov: "b1 < 2 ^ 1024" "b3 < 2 ^ 1024" "b4 < 2 ^ 1024"
    unfolding \<mu>_def by blast+
  from Calibrate_result[of g0 a0 hw K v c x] cal(1-4)
  obtain m where m: "mean v c = Fin m" "repr binary32 m"
    and r: "if - 1 < m + 1 / 2 \<and> m + 1 / 2 < 2 ^ 32
      then Calibrate K hw g0
             = Inr (g0\<lparr>m_center := word_of_int (trunc_zero (m + 1 / 2)),
                 m_offset := Fin (m - of_int (trunc_zero (m + 1 / 2))),
                 m_analog := Some ((InitAccumulator a0)\<lparr>averageValue := x,
                    accumulatorValue := 0, accumulatorCount := 0,
                    accumulatorCenter := word_of_int (trunc_zero (m + 1 / 2))\<rparr>),
                 events := events g0 @ [WaitEv (kCalibrationSampleTime K)]\<rparr>)
           \<and> uint (word_of_int (trunc_zero (m + 1 / 2)) :: 32 word) = trunc_zero (m + 1 / 2)
      else Calibrate K hw g0 = Inl UndefinedConversion"
    by blast
  have rg: "- 1 < m + 1 / 2 \<and> m + 1 / 2 < 2 ^ 32"
  proof (rule ccontr)
    assume "\<not> ?thesis"
    with r have "Calibrate K hw g0 = Inl UndefinedConversion" by simp
    with cal(5) show False by simp
  qed
  define t where "t = trunc_zero (m + 1 / 2)"
  have tr: "0 \<le> t" "t < 2 ^ 32" using trunc_half_range[of "m + 1 / 2"] rg unfolding t_def by simp_all
  have g1: "m_center g1 = word_of_int t" "m_offset g1 = Fin (m - of_int t)"
    using r rg cal(5) unfolding t_def by auto
  from mean_error[OF cal(4), of v] m(1)
  have me: "\<bar>m - \<mu>\<bar> \<le> \<bar>\<mu>\<bar> / 2 ^ 22" unfolding \<mu>_def by auto
  have dl: "\<bar>rval (averageValue a) - m\<bar> \<le> \<epsilon> + \<bar>\<mu>\<bar> / 2 ^ 22" using avg(3) me by linarith
  show "\<exists>z. GetRate g = Inr z \<and> z \<noteq> NaN \<and> \<not> isinf z \<and> \<bar>rval z\<bar> \<le> b4"
    using assms m(2) tr
  proof (rule GetRate_tolerance)
    show "m_center g = word_of_int t" using same g1 by simp
    show "m_offset g = Fin (m - of_int t)" using same g1 by simp
  qed (fact avg(1,2) dl lsb den b ov)+
qed

lemma rate_example_steps:
  "of_integer binary64 11 = Fin 11"
  "fadd binary64 (Fin 11) (Fin (- (1 / 2))) = Fin (21 / 2)"
  "fsub binary64 (Fin (25 / 2)) (Fin (21 / 2)) = Fin 2"
  "fmul binary64 (Fin 0) (Fin 1000) = Fin 0"
  "fmul binary32 (Fin 4) (Fin (1 / 128)) = Fin (1 / 32)"
  "fdiv binary64 (Fin 0) (Fin (1 / 32)) = Fin 0"
  "fmul binary64 (Fin 2) lit_1e_9 = Fin (4835703278458517 / 2 ^ 81)"
  "fmul binary64 (Fin (4835703278458517 / 2 ^ 81)) (Fin 1000) = Fin (2361183241434823 / 2 ^ 70)"
  "fdiv binary64 (Fin (2361183241434823 / 2 ^ 70)) (Fin (1 / 32)) = Fin (2361183241434823 / 2 ^ 65)"
  unfolding of_integer_def
  using fround_exact[OF repr64_int[of 11]] fround_exact[OF repr64_frac[of 21 1]]
    fround_exact[OF repr64_int[of 2]] fround_exact[OF repr32_frac[of 1 5]]
    fround_exact[OF repr64_frac[of 4835703278458517 81]]
    fround_frac_eqI[of 71 binary64 "4835703278458517 / 2 ^ 81 * 1000" 4722366482869646]
    fround_exact[OF repr64_frac[of 2361183241434823 65]]
  by (simp_all add: fmul_def fdiv_def fadd_def fsub_def fzero_def lit_1e_9_eq)

lemma Calibrate_example:
  "Calibrate example_consts example_hw example_gyro = Inr example_gyro_calibrated"
proof -
  have h: "\<not> StatusIsFatal example_gyro" "m_analog example_gyro = Some example_input"
    "example_hw (kCalibrationSampleTime example_consts) (InitAccumulator example_input)
       = (21, 2, Fin (21 / 2))"
    "(2 :: 32 word) \<noteq> 0"
    by (simp_all add: example_gyro_def StatusIsFatal_def example_hw_def)
  have e: "events example_gyro = []" "kCalibrationSampleTime example_consts = Fin 5"
    by (simp_all add: example_gyro_def example_consts_def)
  from Calibrate_result
    [of example_gyro example_input example_hw example_consts 21 2 "Fin (21 / 2)", OF h]
  obtain m1 where m1: "mean 21 2 = Fin m1"
    and b1: "if - 1 < m1 + 1 / 2 \<and> m1 + 1 / 2 < 2 ^ 32
      then Calibrate example_consts example_hw example_gyro
             = Inr (example_gyro\<lparr>m_center := word_of_int (trunc_zero (m1 + 1 / 2)),
                 m_offset := Fin (m1 - of_int (trunc_zero (m1 + 1 / 2))),
                 m_analog := Some ((InitAccumulator example_input)\<lparr>averageValue := Fin (21 / 2),
                    accumulatorValue := 0, accumulatorCount := 0,
                    accumulatorCenter := word_of_int (trunc_zero (m1 + 1 / 2))\<rparr>),
                 events := events example_gyro @ [WaitEv (kCalibrationSampleTime example_consts)]\<rparr>)
           \<and> uint (word_of_int (trunc_zero (m1 + 1 / 2)) :: 32 word) = trunc_zero (m1 + 1 / 2)
      else Calibrate example_consts example_hw example_gyro = Inl UndefinedConversion"
    by blast
  have "m1 = 21 / 2" using m1 mean_examples(1) by simp
  with b1 show ?thesis
    by (simp add: trunc_zero_def e InitAccumulator_def example_input_def example_gyro_calibrated_def)
qed

lemma of_integer32_tie: "of_integer binary32 452472720 = Fin 452472704"
proof -
  have q: "quantum 24 253 (1 / 2 ^ 149) 452472720 = 1 / 2 ^ 149 * 2 ^ 154"
    by (rule quantum_eqI) simp_all
  have q': "(1::real) / 2 ^ 149 * 2 ^ 154 = 32" by simp
  have r: "rne (452472720 / 32) = 14139772" by (simp add: rne_def Let_def)
  have "rnd binary32 452472720 = 452472704" 
    unfolding rnd_def by (simp only: binary32_simps abs_numeral q q' Let_def r)
  then show ?thesis by (simp add: of_integer_def fround_def Let_def)
qed

lemma mean_constant_example: "mean 452472720 240 = Fin (15082423 / 8)"
proof -
  have i: "of_integer binary32 240 = Fin 240"
    unfolding of_integer_def using fround_exact[OF repr32_int[of 240]] by simp
  have s: "sint (452472720 :: 64 word) = 452472720" "uint (240 :: 32 word) = 240" by simp_all
  have f: "fround binary32 (452472704 / 240) = Fin (15082423 / 2 ^ 3)"
    using fround_frac_eqI[of 3 binary32 "452472704 / 240" 15082423] by simp
  show ?thesis unfolding mean_def s i of_integer32_tie using f by (simp add: fdiv_def)
qed

lemma constant_example_steps:
  "of_integer binary64 1885303 = Fin 1885303"
  "fadd binary64 (Fin 1885303) (Fin (- (1 / 8))) = Fin (15082423 / 8)"
  "fsub binary64 (Fin 1885303) (Fin (15082423 / 8)) = Fin (1 / 8)"
  "fmul binary64 (Fin (1 / 8)) lit_1e_9 = Fin (4835703278458517 / 2 ^ 85)"
  "fmul binary64 (Fin (4835703278458517 / 2 ^ 85)) (Fin 1000) = Fin (2361183241434823 / 2 ^ 74)"
  "fdiv binary64 (Fin (2361183241434823 / 2 ^ 74)) (Fin (1 / 32)) = Fin (2361183241434823 / 2 ^ 69)"
  unfolding of_integer_def
  using fround_exact[OF repr64_int[of 1885303]] fround_exact[OF repr64_frac[of 15082423 3]]
    fround_exact[OF repr64_frac[of 1 3]]
    fround_exact[OF repr64_frac[of 4835703278458517 85]]
    fround_frac_eqI[of 75 binary64 "4835703278458517 / 2 ^ 85 * 1000" 4722366482869646]
    fround_exact[OF repr64_frac[of 2361183241434823 69]]
  by (simp_all add: fmul_def fdiv_def fadd_def fsub_def fzero_def lit_1e_9_eq)

lemma Calibrate_constant_example:
  "Calibrate example_consts example_hw_constant example_gyro = Inr example_gyro_constant"
proof -
  have h: "\<not> StatusIsFatal example_gyro" "m_analog example_gyro = Some example_input"
    "example_hw_constant (kCalibrationSampleTime example_consts) (InitAccumulator example_input)
       = (452472720, 240, Fin 1885303)"
    "(240 :: 32 word) \<noteq> 0"
    by (simp_all add: example_gyro_def StatusIsFatal_def example_hw_constant_def)
  have e: "events example_gyro = []" "kCalibrationSampleTime example_consts = Fin 5"
    by (simp_all add: example_gyro_def example_consts_def)
  from Calibrate_result
    [of example_gyro example_input example_hw_constant example_consts 452472720 240 "Fin 1885303",
     OF h]
  obtain m1 where m1: "mean 452472720 240 = Fin m1"
    and b1: "if - 1 < m1 + 1 / 2 \<and> m1 + 1 / 2 < 2 ^ 32
      then Calibrate example_consts example_hw_constant example_gyro
             = Inr (example_gyro\<lparr>m_center := word_of_int (trunc_zero (m1 + 1 / 2)),
                 m_offset := Fin (m1 - of_int (trunc_zero (m1 + 1 / 2))),
                 m_analog := Some ((InitAccumulator example_input)\<lparr>averageValue := Fin 1885303,
                    accumulatorValue := 0, accumulatorCount := 0,
                    accumulatorCenter := word_of_int (trunc_zero (m1 + 1 / 2))\<rparr>),
                 events := events example_gyro @ [WaitEv (kCalibrationSampleTime example_consts)]\<rparr>)
           \<and> uint (word_of_int (trunc_zero (m1 + 1 / 2)) :: 32 word) = trunc_zero (m1 + 1 / 2)
      else Calibrate example_consts example_hw_constant example_gyro = Inl UndefinedConversion"
    by blast
  have "m1 = 15082423 / 8" using m1 mean_constant_example by simp
  with b1 show ?thesis
    by (simp add: trunc_zero_def e InitAccumulator_def example_input_def example_gyro_constant_def)
qed

text \<open>The examples. After the calibration on 2 samples that sum to 21, a channel that
  reads 10.5 gives the rate 0 and one that reads 12.5 gives 2 * 1e-9 * 1000 / (4 / 128).
  After the calibration on 240 samples of 1885303 the \<^verbatim>\<open>float\<close> mean is 1885302.875, and
  a channel that reads 1885303 gives the rate 2361183241434823 / 2^69, about 4.0e-6,
  below the bound of about 1.44e-5.\<close>

theorem GetRate_formula_witness:
  "Calibrate example_consts example_hw example_gyro = Inr example_gyro_calibrated
   \<and> GetRate example_gyro_calibrated = Inr (Fin 0)
   \<and> GetRate (example_gyro_calibrated\<lparr>m_analog :=
         Some (example_input\<lparr>averageValue := Fin (25 / 2), accumulatorCenter := 11\<rparr>)\<rparr>)
       = Inr (Fin (2361183241434823 / 2 ^ 65))
   \<and> Calibrate example_consts example_hw_constant example_gyro = Inr example_gyro_constant
   \<and> GetRate example_gyro_constant = Inr (Fin (2361183241434823 / 2 ^ 69))
   \<and> 2361183241434823 / 2 ^ 69
       \<le> rounded binary64 (rounded binary64 (rounded binary64
             (rounded binary64 (1885303 / 2 ^ 22) * rval lit_1e_9) * 1000) / (1 / 32))
   \<and> rounded binary64 (rounded binary64 (rounded binary64
             (rounded binary64 (1885303 / 2 ^ 22) * rval lit_1e_9) * 1000) / (1 / 32)) < 1 / 2 ^ 16"
proof -
  define a where "a = example_input\<lparr>averageValue := Fin (21 / 2), accumulatorCenter := 11\<rparr>"
  define a' where "a' = example_input\<lparr>averageValue := Fin (25 / 2), accumulatorCenter := 11\<rparr>"
  define g' where "g' = example_gyro_calibrated\<lparr>m_analog := Some a'\<rparr>"
  define ac where "ac = example_input\<lparr>averageValue := Fin 1885303, accumulatorCenter := 1885303\<rparr>"
  define B1 where "B1 = rounded binary64 (1885303 / 2 ^ 22)"
  define B2 where "B2 = rounded binary64 (B1 * rval lit_1e_9)"
  define B3 where "B3 = rounded binary64 (B2 * 1000)"
  define B4 where "B4 = rounded binary64 (B3 / (1 / 32))"
  have s: "unat (oversampleBits a) = 2" "lsbWeight a = Fin 1000" "averageValue a = Fin (21 / 2)"
    "unat (oversampleBits a') = 2" "lsbWeight a' = Fin 1000" "averageValue a' = Fin (25 / 2)"
    "unat (oversampleBits ac) = 2" "lsbWeight ac = Fin 1000" "averageValue ac = Fin 1885303"
    by (simp_all add: a_def a'_def ac_def example_input_def)
  have g: "\<not> StatusIsFatal example_gyro_calibrated" "m_analog example_gyro_calibrated = Some a"
    "uint (m_center example_gyro_calibrated) = 11"
    "m_offset example_gyro_calibrated = Fin (- (1 / 2))"
    "m_voltsPerDegreePerSecond example_gyro_calibrated = Fin (1 / 128)"
    "\<not> StatusIsFatal g'" "m_analog g' = Some a'" "uint (m_center g') = 11"
    "m_offset g' = Fin (- (1 / 2))" "m_voltsPerDegreePerSecond g' = Fin (1 / 128)"
    by (simp_all add: example_gyro_calibrated_def example_gyro_def StatusIsFatal_def a_def g'_def)
  have gc: "\<not> StatusIsFatal example_gyro_constant" "m_analog example_gyro_constant = Some ac"
    "uint (m_center example_gyro_constant) = 1885303"
    "m_offset example_gyro_constant = Fin (- (1 / 8))"
    "m_voltsPerDegreePerSecond example_gyro_constant = Fin (1 / 128)"
    by (simp_all add: example_gyro_constant_def example_gyro_def StatusIsFatal_def ac_def)
  have l: "unat (oversampleBits a) < 31" "unat (oversampleBits a') < 31" "unat (oversampleBits ac) < 31"
    using s by simp_all
  have h0: "\<not> StatusIsFatal example_gyro" "m_analog example_gyro = Some example_input"
    "example_hw_constant (kCalibrationSampleTime example_consts) (InitAccumulator example_input)
       = (452472720, 240, Fin 1885303)"
    "(240 :: 32 word) \<noteq> 0"
    by (simp_all add: example_gyro_def StatusIsFatal_def example_hw_constant_def)
  have 1: "GetRate example_gyro_calibrated = Inr (Fin 0)"
    using GetRate_formula[OF g(1) g(2) l(1)] unfolding s g
    by (simp add: rate_example_steps fsub_self fmul_zero_left fzero_def)
  have 2: "GetRate g' = Inr (Fin (2361183241434823 / 2 ^ 65))"
    using GetRate_formula[OF g(6) g(7) l(2)] rate_example_steps unfolding s g by simp
  note T = GetRate_formula[OF gc(1) gc(2) l(3),
      where ?g0.0 = example_gyro and ?a0.0 = example_input and hw = example_hw_constant
        and K = example_consts and v = 452472720 and c = 240 and x = "Fin 1885303"
        and ?g1.0 = example_gyro_constant and \<epsilon> = 0 and D = "Fin (1 / 32)"
        and ?b1.0 = B1 and ?b2.0 = B2 and ?b3.0 = B3 and ?b4.0 = B4]
  have 3: "GetRate example_gyro_constant = Inr (Fin (2361183241434823 / 2 ^ 69))"
    using T constant_example_steps rate_example_steps(5) unfolding s gc by simp
  have B: "B1 < 2 ^ 1024" "B3 < 2 ^ 1024" "B4 < 2 ^ 1024" "B4 < 1 / 2 ^ 16"
    unfolding B4_def B3_def B2_def B1_def by (simp_all add: rounded_def lit_1e_9_eq)
  have p: "\<not> StatusIsFatal example_gyro \<and> m_analog example_gyro = Some example_input
         \<and> example_hw_constant (kCalibrationSampleTime example_consts) (InitAccumulator example_input)
             = (452472720, 240, Fin 1885303) \<and> (240 :: 32 word) \<noteq> 0
         \<and> Calibrate example_consts example_hw_constant example_gyro = Inr example_gyro_constant
         \<and> m_center example_gyro_constant = m_center example_gyro_constant
         \<and> m_offset example_gyro_constant = m_offset example_gyro_constant
         \<and> averageValue ac \<noteq> NaN \<and> \<not> isinf (averageValue ac)
         \<and> \<bar>rval (averageValue ac)
              - real_of_int (sint (452472720 :: 64 word)) / real_of_int (uint (240 :: 32 word))\<bar> \<le> 0
         \<and> lsbWeight ac \<noteq> NaN \<and> \<not> isinf (lsbWeight ac)
         \<and> Fin (1 / 32) = fmul binary32 (Fin (2 ^ unat (oversampleBits ac)))
               (m_voltsPerDegreePerSecond example_gyro_constant)
         \<and> Fin (1 / 32) \<noteq> NaN \<and> \<not> isinf (Fin (1 / 32)) \<and> \<not> is_zero (Fin (1 / 32))
         \<and> B1 = rounded binary64
              (0 + \<bar>real_of_int (sint (452472720 :: 64 word)) / real_of_int (uint (240 :: 32 word))\<bar> / 2 ^ 22)
         \<and> B2 = rounded binary64 (B1 * rval lit_1e_9)
         \<and> B3 = rounded binary64 (B2 * \<bar>rval (lsbWeight ac)\<bar>)
         \<and> B4 = rounded binary64 (B3 / \<bar>rval (Fin (1 / 32))\<bar>)
         \<and> B1 < 2 ^ 1024 \<and> B3 < 2 ^ 1024 \<and> B4 < 2 ^ 1024"
    using h0 Calibrate_constant_example B(1-3) unfolding s gc
    by (simp add: rate_example_steps B1_def B2_def B3_def B4_def)
  from T[THEN conjunct2, rule_format, OF p] 3
  have 4: "2361183241434823 / 2 ^ 69 \<le> B4" by auto
  from 1 2 3 4 B(4) Calibrate_example Calibrate_constant_example show ?thesis
    unfolding g'_def a'_def B4_def B3_def B2_def B1_def by simp
qed


end
